theory Spec2Isabelle
  imports Main
begin

unbundle bit_operations_syntax

section \<open>Machine arithmetic and characters\<close>

text \<open>
  The library (\<^verbatim>\<open>include/sp.hpp\<close>) keeps lengths, sizes, widths and indices in
  \<^verbatim>\<open>int32_t\<close>. They are modelled as \<open>int\<close> with the 32-bit two's-complement
  wrap-around written out by \<open>i32\<close> wherever the C++ adds, subtracts or converts.
  (Signed overflow is undefined in C++; the wrap-around is what the usual targets
  produce. Every theorem that depends on the absence of overflow says so.)
\<close>

definition i32 :: "int \<Rightarrow> int" where
  "i32 x = (x + 2147483648) mod 4294967296 - 2147483648"

text \<open>\<^verbatim>\<open>uint64_t(x)\<close> and \<^verbatim>\<open>size_t(x)\<close> of a signed value.\<close>

definition u64 :: "int \<Rightarrow> nat" where
  "u64 x = nat (x mod 18446744073709551616)"

text \<open>\<^verbatim>\<open>ch >= '0' && ch <= '9'\<close> and \<^verbatim>\<open>ch - '0'\<close>.\<close>

definition is_digit :: "char \<Rightarrow> bool" where
  "is_digit ch = (48 \<le> (of_char ch :: nat) \<and> (of_char ch :: nat) \<le> 57)"

definition digit_val :: "char \<Rightarrow> int" where
  "digit_val ch = int (of_char ch) - 48"

text \<open>\<^verbatim>\<open>StringView(ptr + a, b - a)\<close>: the characters at positions \<open>a \<le> i < b\<close>.\<close>

definition slice :: "string \<Rightarrow> nat \<Rightarrow> nat \<Rightarrow> string" where
  "slice s a b = take (b - a) (drop a s)"

text \<open>
  \<^verbatim>\<open>std::memcpy(dst, src, n)\<close> into the caller's array \<open>m\<close> at offset \<open>dst\<close>. The caller
  promises an array of at least the size it passes; a store past the end of \<open>m\<close>
  (undefined in C++) is dropped by the model.
\<close>

primrec memcpy :: "string \<Rightarrow> nat \<Rightarrow> string \<Rightarrow> string" where
  "memcpy m dst [] = m"
| "memcpy m dst (c # cs) = memcpy (m[dst := c]) (Suc dst) cs"

section \<open>Output\<close>

text \<open>
  \<^verbatim>\<open>class Output\<close>: \<open>m_stream\<close> is the \<^verbatim>\<open>FILE*\<close> (\<open>None\<close> for \<^verbatim>\<open>nullptr\<close>), of an
  arbitrary type \<open>'f\<close> of stream states; \<open>mem\<close> is the caller's character array and
  \<open>m_buffer\<close> the offset of the write cursor in it; \<open>m_size\<close> and \<open>m_length\<close> are
  the \<^verbatim>\<open>int32_t\<close> fields.
\<close>

record 'f Output =
  m_stream :: "'f option"
  mem :: string
  m_buffer :: nat
  m_size :: int
  m_length :: int

text \<open>
  The host's \<^verbatim>\<open>std::fwrite(data, 1, bytes, stream)\<close> is a parameter \<open>fw\<close> of every
  function that writes: it returns the count it wrote and the stream's new state.
\<close>

type_synonym 'f fwrite = "string \<Rightarrow> 'f \<Rightarrow> nat \<times> 'f"

text \<open>\<^verbatim>\<open>Output(char buffer[], size_t size)\<close> and \<^verbatim>\<open>Output(FILE* stream)\<close>.\<close>

definition Output_buffer :: "string \<Rightarrow> nat \<Rightarrow> 'f Output" where
  "Output_buffer buffer sz =
     \<lparr>m_stream = None, mem = buffer, m_buffer = 0, m_size = i32 (int sz), m_length = 0\<rparr>"

definition Output_stream :: "'f \<Rightarrow> 'f Output" where
  "Output_stream stream =
     \<lparr>m_stream = Some stream, mem = [], m_buffer = 0, m_size = 0, m_length = 0\<rparr>"

definition result :: "'f Output \<Rightarrow> int" where
  "result out = m_length out"

text \<open>
  \<^verbatim>\<open>Output::write(size_t bytes, const void* data)\<close>; the model's \<open>data\<close> is the
  \<open>bytes\<close> characters at \<^verbatim>\<open>data\<close>, so \<open>bytes = length data\<close>.
\<close>

definition Output_write :: "'f fwrite \<Rightarrow> string \<Rightarrow> 'f Output \<Rightarrow> 'f Output" where
  "Output_write fw data out =
     (if 0 \<le> m_length out then
        (case m_stream out of
           Some f \<Rightarrow>
             (let (written, f') = fw data f in
              if written = length data
              then out\<lparr>m_stream := Some f', m_length := i32 (m_length out + i32 (int written))\<rparr>
              else out\<lparr>m_stream := Some f', m_length := - 1\<rparr>)
         | None \<Rightarrow>
             (let out1 = out\<lparr>m_length := i32 (m_length out + i32 (int (length data)))\<rparr> in
              if m_size out1 = 0 then out1
              else
                (let toCopy = min (u64 (int (u64 (m_size out1)) - 1)) (length data) in
                 out1\<lparr>mem := (memcpy (mem out1) (m_buffer out1) (take toCopy data))
                                 [m_buffer out1 + toCopy := CHR 0x00],
                       m_buffer := m_buffer out1 + toCopy,
                       m_size := i32 (m_size out1 - i32 (int toCopy))\<rparr>)))
      else out)"

text \<open>\<^verbatim>\<open>Output::write(char ch)\<close> is \<^verbatim>\<open>write(sizeof(ch), &ch)\<close>.\<close>

definition Output_write_char :: "'f fwrite \<Rightarrow> char \<Rightarrow> 'f Output \<Rightarrow> 'f Output" where
  "Output_write_char fw ch out = Output_write fw [ch] out"

text \<open>A sequence of write operations, first to last.\<close>

definition writes :: "'f fwrite \<Rightarrow> string list \<Rightarrow> 'f Output \<Rightarrow> 'f Output" where
  "writes fw ds out = foldl (\<lambda>acc d. Output_write fw d acc) out ds"

section \<open>The spec parser\<close>

text \<open>\<^verbatim>\<open>struct FormatFlags\<close>; a \<^verbatim>\<open>char\<close> of value 0 and a width or precision of -1 are unset.\<close>

record FormatFlags =
  fill :: char
  align :: char
  sign :: char
  alternate :: bool
  width :: int
  precision :: int
  ftype :: char

definition FormatFlags_init :: FormatFlags where
  "FormatFlags_init =
     \<lparr>fill = CHR 0x00, align = CHR 0x00, sign = CHR 0x00, alternate = False,
      width = - 1, precision = - 1, ftype = CHR 0x00\<rparr>"

datatype parse_State =
  STATE_ALIGN | STATE_SIGN | STATE_ALTERNATE | STATE_WIDTH | STATE_PRECISION | STATE_TYPE
  | STATE_DONE

text \<open>The lambda \<^verbatim>\<open>isAlign\<close>: \<^verbatim>\<open>(ch >= '<' && ch <= '>') || ch == '^'\<close>.\<close>

definition isAlign :: "char \<Rightarrow> bool" where
  "isAlign ch = ((60 \<le> (of_char ch :: nat) \<and> (of_char ch :: nat) \<le> 62) \<or> ch = CHR ''^'')"

text \<open>
  One iteration of the \<^verbatim>\<open>while (next < term)\<close> loop of \<^verbatim>\<open>parse_format\<close>, on the
  loop's variables \<open>(state, next, flags)\<close>; \<open>None\<close> is \<^verbatim>\<open>return false\<close>. The
  iteration reads \<open>ch\<close> at \<open>ptr\<close> and advances \<open>next\<close>; a branch that ends in
  \<^verbatim>\<open>--next\<close> leaves \<open>next\<close> at \<open>ptr\<close>.
\<close>

definition parse_step ::
  "string \<Rightarrow> parse_State \<times> nat \<times> FormatFlags \<Rightarrow> (parse_State \<times> nat \<times> FormatFlags) option" where
  "parse_step fmt v =
     (case v of (state, ptr, flags) \<Rightarrow>
      (let nxt = ptr + 1; ch = fmt ! ptr in
       case state of
         STATE_ALIGN \<Rightarrow>
           if nxt < length fmt \<and> isAlign (fmt ! nxt)
           then Some (STATE_SIGN, nxt + 1, flags\<lparr>fill := ch, align := fmt ! nxt\<rparr>)
           else if isAlign ch then Some (STATE_SIGN, nxt, flags\<lparr>align := ch\<rparr>)
           else Some (STATE_SIGN, ptr, flags)
       | STATE_SIGN \<Rightarrow>
           if ch = CHR ''+'' \<or> ch = CHR ''-'' \<or> ch = CHR '' ''
           then Some (STATE_ALTERNATE, nxt, flags\<lparr>sign := ch\<rparr>)
           else Some (STATE_ALTERNATE, ptr, flags)
       | STATE_ALTERNATE \<Rightarrow>
           if ch = CHR ''#'' then Some (STATE_WIDTH, nxt, flags\<lparr>alternate := True\<rparr>)
           else Some (STATE_WIDTH, ptr, flags)
       | STATE_WIDTH \<Rightarrow>
           if is_digit ch then
             (let flags1 =
                (if width flags < 0
                 then (if ch = CHR ''0'' then flags\<lparr>fill := CHR ''0'', align := CHR ''=''\<rparr>
                       else flags)\<lparr>width := 0\<rparr>
                 else flags)
              in Some (STATE_WIDTH, nxt,
                       flags1\<lparr>width := i32 (i32 (width flags1 * 10) + digit_val ch)\<rparr>))
           else Some (STATE_PRECISION, ptr, flags)
       | STATE_PRECISION \<Rightarrow>
           if precision flags < 0 \<and> ch = CHR ''.''
           then Some (STATE_PRECISION, nxt, flags\<lparr>precision := 0\<rparr>)
           else if 0 \<le> precision flags \<and> is_digit ch
           then Some (STATE_PRECISION, nxt,
                      flags\<lparr>precision := i32 (i32 (precision flags * 10) + digit_val ch)\<rparr>)
           else Some (STATE_TYPE, ptr, flags)
       | STATE_TYPE \<Rightarrow>
           if ch = CHR ''b'' \<or> ch = CHR ''d'' \<or> ch = CHR ''e'' \<or> ch = CHR ''E''
              \<or> ch = CHR ''f'' \<or> ch = CHR ''F'' \<or> ch = CHR ''g'' \<or> ch = CHR ''G''
              \<or> ch = CHR ''o'' \<or> ch = CHR ''s'' \<or> ch = CHR ''x'' \<or> ch = CHR ''X''
              \<or> ch = CHR ''%''
           then Some (STATE_DONE, nxt, flags\<lparr>ftype := ch\<rparr>)
           else Some (STATE_DONE, ptr, flags)
       | STATE_DONE \<Rightarrow> None))"

text \<open>How many states a scan can still pass through without consuming a character.\<close>

fun parse_rank :: "parse_State \<Rightarrow> nat" where
  "parse_rank STATE_ALIGN = 6"
| "parse_rank STATE_SIGN = 5"
| "parse_rank STATE_ALTERNATE = 4"
| "parse_rank STATE_WIDTH = 3"
| "parse_rank STATE_PRECISION = 2"
| "parse_rank STATE_TYPE = 1"
| "parse_rank STATE_DONE = 0"

function parse_loop :: "string \<Rightarrow> parse_State \<times> nat \<times> FormatFlags \<Rightarrow> bool \<times> FormatFlags" where
  "parse_loop fmt v =
     (if fst (snd v) < length fmt
      then (case parse_step fmt v of
              None \<Rightarrow> (False, snd (snd v))
            | Some v' \<Rightarrow> parse_loop fmt v')
      else (True, snd (snd v)))"
  by pat_completeness auto
termination
  apply (relation "measure (\<lambda>(fmt, state, nxt, flags). 7 * (length fmt - nxt) + parse_rank state)")
   apply simp
  apply (auto simp: parse_step_def Let_def split: parse_State.splits if_splits prod.splits)
  done

declare parse_loop.simps [simp del]

text \<open>\<^verbatim>\<open>bool parse_format(const StringView& fmt, FormatFlags* flags)\<close>.\<close>

definition parse_format :: "string \<Rightarrow> bool \<times> FormatFlags" where
  "parse_format fmt = parse_loop fmt (STATE_ALIGN, 0, FormatFlags_init)"

section \<open>Value renderers\<close>

text \<open>
  The digit loop of \<^verbatim>\<open>format_int\<close>:
  \<^verbatim>\<open>do { *(--digits) = digitchars[v % base]; v /= base; ++ndigits; } while (v);\<close>
  \<open>acc\<close> is the text already stored at \<^verbatim>\<open>digits\<close>. The base is 2, 8, 10 or 16 at
  every call; the loop's guard says so to make the function total.
\<close>

function digits_loop :: "nat \<Rightarrow> string \<Rightarrow> nat \<Rightarrow> string \<Rightarrow> string" where
  "digits_loop base digitchars v acc =
     (let acc' = (digitchars ! (v mod base)) # acc; v' = v div base in
      if 0 < v' \<and> 1 < base then digits_loop base digitchars v' acc' else acc')"
  by pat_completeness auto
termination
  apply (relation "measure (\<lambda>(base, digitchars, v, acc). v)")
   apply simp
  apply (auto intro!: div_less_dividend)
  apply (rule ccontr)
  apply simp
  done

declare digits_loop.simps [simp del]

text \<open>
  The padding loops \<^verbatim>\<open>while (leadSpace--) { output.write(fill); }\<close>: \<open>n\<close> is the
  number of times the body runs.
\<close>

function write_fill :: "'f fwrite \<Rightarrow> char \<Rightarrow> nat \<Rightarrow> 'f Output \<Rightarrow> 'f Output" where
  "write_fill fw c n out =
     (if n = 0 then out else write_fill fw c (n - 1) (Output_write_char fw c out))"
  by pat_completeness auto
termination
  by (relation "measure (\<lambda>(fw, c, n, out). n)") auto

declare write_fill.simps [simp del]

text \<open>
  The body of \<^verbatim>\<open>while (n--)\<close> runs \<open>n\<close> times for \<open>0 \<le> n\<close>; started below zero, the
  \<^verbatim>\<open>int32_t\<close> counter reaches zero only after it wraps, \<open>2^32 + n\<close> runs later.
\<close>

definition loop_count :: "int \<Rightarrow> nat" where
  "loop_count n = nat (n mod 4294967296)"

text \<open>\<^verbatim>\<open>x / 2\<close> on \<^verbatim>\<open>int32_t\<close>: C++ division truncates towards zero.\<close>

definition half :: "int \<Rightarrow> int" where
  "half x = (if 0 \<le> x then x div 2 else - ((- x) div 2))"

text \<open>
  The \<^verbatim>\<open>case '^':\<close> branch shared by the renderers:
  \<^verbatim>\<open>leadSpace = (width / 2) - ((nchars + 1) / 2);\<close>
  \<^verbatim>\<open>tailSpace = ((width + 1) / 2) - (nchars / 2);\<close>
  \<^verbatim>\<open>leadSpace += (width - nchars - 1) & 1;\<close>
  \<^verbatim>\<open>tailSpace -= (width - nchars - 1) & 1;\<close>
\<close>

definition center_spacing :: "int \<Rightarrow> int \<Rightarrow> int \<times> int" where
  "center_spacing w nchars =
     (let leadSpace = i32 (half w - half (i32 (nchars + 1)));
          tailSpace = i32 (half (i32 (w + 1)) - half nchars);
          corr = i32 (i32 (w - nchars) - 1) AND 1
      in (i32 (leadSpace + corr), i32 (tailSpace - corr)))"

text \<open>\<^verbatim>\<open>bool format_int(Output&, const FormatFlags&, bool isNegative, uint64_t value)\<close>.\<close>

definition format_int ::
  "'f fwrite \<Rightarrow> 'f Output \<Rightarrow> FormatFlags \<Rightarrow> bool \<Rightarrow> nat \<Rightarrow> bool \<times> 'f Output" where
  "format_int fw out flags isNegative val =
     (let base = (if ftype flags = CHR ''b'' then 2
                  else if ftype flags = CHR ''o'' then 8
                  else if ftype flags = CHR ''x'' \<or> ftype flags = CHR ''X'' then 16
                  else (10::nat));
          digitchars = (if ftype flags = CHR ''X'' then ''0123456789ABCDEF''
                        else ''0123456789abcdef'');
          digits0 = digits_loop base digitchars val [];
          digits = (if alternate flags then
                      (if base = 2 then CHR ''0'' # CHR ''b'' # digits0
                       else if base = 8 then CHR ''0'' # CHR ''o'' # digits0
                       else if base = 16 then CHR ''0'' # ftype flags # digits0
                       else digits0)
                    else digits0);
          ndigits = int (length digits);
          sgn_ch = (if isNegative then CHR ''-''
                    else if sign flags = CHR ''+'' \<or> sign flags = CHR '' '' then sign flags
                    else CHR 0x00);
          nchars = (if sgn_ch \<noteq> CHR 0x00 then ndigits + 1 else ndigits);
          w = max (width flags) nchars;
          (leadSpace, tailSpace) =
            (if align flags = CHR ''^'' then center_spacing w nchars
             else if align flags = CHR ''<'' then (0, i32 (w - nchars))
             else (i32 (w - nchars), 0));
          out1 = (if sgn_ch \<noteq> CHR 0x00 \<and> align flags = CHR ''=''
                  then Output_write_char fw sgn_ch out else out);
          fill_ch = (if fill flags \<noteq> CHR 0x00 then fill flags else CHR '' '');
          out2 = write_fill fw fill_ch (loop_count leadSpace) out1;
          out3 = (if sgn_ch \<noteq> CHR 0x00 \<and> align flags \<noteq> CHR ''=''
                  then Output_write_char fw sgn_ch out2 else out2);
          out4 = Output_write fw digits out3;
          out5 = write_fill fw fill_ch (loop_count tailSpace) out4
      in (True, out5))"

text \<open>
  \<^verbatim>\<open>bool format_string(Output&, const StringView& format, const StringView& str)\<close>;
  \<open>str\<close> is the argument's characters, \<^verbatim>\<open>str.length\<close> their \<^verbatim>\<open>int32_t\<close> count.
\<close>

definition format_string ::
  "'f fwrite \<Rightarrow> 'f Output \<Rightarrow> string \<Rightarrow> string \<Rightarrow> bool \<times> 'f Output" where
  "format_string fw out fmt str =
     (case parse_format fmt of (ok, flags) \<Rightarrow>
      if ok then
        (let nchars0 = i32 (int (length str));
             nchars = (if 0 \<le> precision flags then min (precision flags) nchars0 else nchars0);
             w = max (width flags) nchars;
             (leadSpace, tailSpace) =
               (if align flags = CHR ''^'' then center_spacing w nchars
                else if align flags = CHR ''>'' then (i32 (w - nchars), 0)
                else (0, i32 (w - nchars)));
             fill_ch = (if fill flags \<noteq> CHR 0x00 then fill flags else CHR '' '');
             out1 = write_fill fw fill_ch (loop_count leadSpace) out;
             out2 = Output_write fw (take (u64 nchars) str) out1;
             out3 = write_fill fw fill_ch (loop_count tailSpace) out2
         in (True, out3))
      else (False, out))"

text \<open>
  The format arguments, by the overload of \<^verbatim>\<open>format_value\<close> that C++ selects: every
  signed integer type (and \<^verbatim>\<open>char\<close>, where it is signed) converts to
  \<^verbatim>\<open>long long\<close>, every unsigned one to \<^verbatim>\<open>unsigned long long\<close>; \<open>ArgPtr\<close> is the
  address held by a \<^verbatim>\<open>T*\<close>. \<^verbatim>\<open>float\<close> and \<^verbatim>\<open>double\<close> arguments are not part of the
  embedding: \<^verbatim>\<open>format_float\<close> takes their digits from the host's \<^verbatim>\<open>snprintf\<close>.
\<close>

datatype Arg =
  ArgBool bool | ArgLongLong int | ArgULongLong nat | ArgStr string | ArgPtr nat | ArgDummy

fun format_value :: "'f fwrite \<Rightarrow> 'f Output \<Rightarrow> string \<Rightarrow> Arg \<Rightarrow> bool \<times> 'f Output" where
  "format_value fw out fmt (ArgBool b) =
     format_string fw out fmt (if b then ''true'' else ''false'')"
| "format_value fw out fmt (ArgLongLong v) =
     (let abs_v = (if 0 \<le> v \<or> v = - 9223372036854775808 then u64 v else u64 (- v)) in
      case parse_format fmt of (ok, flags) \<Rightarrow>
        if ok then format_int fw out flags (v < 0) abs_v else (False, out))"
| "format_value fw out fmt (ArgULongLong v) =
     (case parse_format fmt of (ok, flags) \<Rightarrow>
        if ok then format_int fw out flags False (u64 (int v)) else (False, out))"
| "format_value fw out fmt (ArgStr str) = format_string fw out fmt str"
| "format_value fw out fmt (ArgPtr v) =
     (case parse_format fmt of (ok, flags) \<Rightarrow>
        if ok then
          format_int fw out
            (if ftype flags = CHR 0x00 then flags\<lparr>ftype := CHR ''x''\<rparr> else flags)
            False (u64 (int v))
        else (False, out))"
| "format_value fw out fmt ArgDummy = (False, out)"

text \<open>
  \<^verbatim>\<open>format_index(output, format, index, args...)\<close>: the variadic recursion over the
  argument pack is a recursion over the argument list.
\<close>

fun format_index :: "'f fwrite \<Rightarrow> 'f Output \<Rightarrow> string \<Rightarrow> int \<Rightarrow> Arg list \<Rightarrow> bool \<times> 'f Output" where
  "format_index fw out fmt idx [] = (False, out)"
| "format_index fw out fmt idx (arg # rest) =
     (if idx = 0 then format_value fw out fmt arg
      else format_index fw out fmt (idx - 1) rest)"

section \<open>The template engine\<close>

datatype format_State =
  STATE_OPENER | STATE_INDEX | STATE_MARKER | STATE_FLAGS | STATE_CLOSER

text \<open>
  The local variables of \<^verbatim>\<open>format(Output&, const StringView& fmt, Args&&...)\<close> that
  live across iterations of its loop. Pointers into the template are offsets from
  \<^verbatim>\<open>fmt.ptr\<close>, \<open>nxt\<close> is \<^verbatim>\<open>next\<close>, \<^verbatim>\<open>term\<close> is \<open>length fmt\<close>, and \<open>formatStart = None\<close> is
  \<^verbatim>\<open>nullptr\<close>.
\<close>

record 'f format_vars =
  state :: format_State
  nxt :: nat
  start :: nat
  formatStart :: "nat option"
  prev :: int
  index :: int
  outp :: "'f Output"

text \<open>
  One iteration of \<^verbatim>\<open>while (next < term)\<close>: it reads \<open>ch\<close> at \<open>ptr\<close> and advances
  \<open>nxt\<close>; a branch that ends in \<^verbatim>\<open>--next\<close> puts \<open>nxt\<close> back to \<open>ptr\<close>.
\<close>

definition format_step ::
  "'f fwrite \<Rightarrow> string \<Rightarrow> Arg list \<Rightarrow> 'f format_vars \<Rightarrow> 'f format_vars" where
  "format_step fw fmt args s0 =
     (let ptr = nxt s0; ch = fmt ! ptr; s = s0\<lparr>nxt := ptr + 1\<rparr> in
      case state s of
        STATE_OPENER \<Rightarrow>
          if ch = CHR ''{'' then
            (let s1 = s\<lparr>outp := Output_write fw (slice fmt (start s) ptr) (outp s)\<rparr> in
             if nxt s1 < length fmt then
               (if fmt ! nxt s1 \<noteq> CHR ''{''
                then s1\<lparr>index := - 1, start := ptr, formatStart := None, state := STATE_INDEX\<rparr>
                else s1\<lparr>start := nxt s1, nxt := nxt s1 + 1\<rparr>)
             else s1)
          else if ch = CHR ''}'' then
            (let s1 = s\<lparr>outp := Output_write fw (slice fmt (start s) (nxt s)) (outp s)\<rparr>;
                 s2 = (if nxt s1 < length fmt \<and> fmt ! nxt s1 = CHR ''}''
                       then s1\<lparr>nxt := nxt s1 + 1\<rparr> else s1)
             in s2\<lparr>start := nxt s2\<rparr>)
          else s
      | STATE_INDEX \<Rightarrow>
          if is_digit ch then
            s\<lparr>index := (if index s < 0 then digit_val ch
                         else i32 (i32 (index s * 10) + digit_val ch))\<rparr>
          else
            (let s1 = (if index s < 0 then s\<lparr>index := i32 (prev s + 1)\<rparr> else s) in
             s1\<lparr>prev := index s1, state := STATE_MARKER, nxt := ptr\<rparr>)
      | STATE_MARKER \<Rightarrow>
          if ch = CHR '':'' then s\<lparr>state := STATE_FLAGS\<rparr>
          else s\<lparr>state := STATE_CLOSER, nxt := ptr\<rparr>
      | STATE_FLAGS \<Rightarrow>
          (let s1 = (if formatStart s = None then s\<lparr>formatStart := Some ptr\<rparr> else s) in
           if ch = CHR ''}'' \<or> ch = CHR ''{'' then s1\<lparr>state := STATE_CLOSER, nxt := ptr\<rparr>
           else s1)
      | STATE_CLOSER \<Rightarrow>
          (let s1 =
             (if ch = CHR ''}'' then
                (let format = (case formatStart s of
                                 Some fs \<Rightarrow> slice fmt fs ptr
                               | None \<Rightarrow> [])
                 in case format_index fw (outp s) format (index s) args of
                      (ok, out') \<Rightarrow>
                        if ok then s\<lparr>outp := out', start := nxt s\<rparr>
                        else s\<lparr>outp := out'\<rparr>)
              else s)
           in s1\<lparr>state := STATE_OPENER\<rparr>))"

text \<open>How many iterations a state can still take without consuming a character.\<close>

fun format_rank :: "format_State \<Rightarrow> nat" where
  "format_rank STATE_INDEX = 3"
| "format_rank STATE_MARKER = 2"
| "format_rank STATE_FLAGS = 1"
| "format_rank STATE_CLOSER = 0"
| "format_rank STATE_OPENER = 0"

text \<open>The loop \<^verbatim>\<open>while (next < term) { ... }\<close>.\<close>

function run :: "'f fwrite \<Rightarrow> string \<Rightarrow> Arg list \<Rightarrow> 'f format_vars \<Rightarrow> 'f format_vars" where
  "run fw fmt args s =
     (if nxt s < length fmt then run fw fmt args (format_step fw fmt args s) else s)"
  by pat_completeness auto
termination
  apply (relation
      "measure (\<lambda>(fw, fmt, args, s). 4 * (length fmt - nxt s) + format_rank (state s))")
   apply simp
  subgoal for fw fmt args s
    by (cases "state s") (auto simp: format_step_def Let_def split: prod.splits)
  done

declare run.simps [simp del]

definition format_init :: "'f Output \<Rightarrow> 'f format_vars" where
  "format_init out =
     \<lparr>state = STATE_OPENER, nxt = 0, start = 0, formatStart = None,
      prev = - 1, index = - 1, outp = out\<rparr>"

text \<open>
  \<^verbatim>\<open>int32_t format(Output& output, const StringView& fmt, Args&&... args)\<close>: the value
  returned and the output as the call leaves it.
\<close>

definition format :: "'f fwrite \<Rightarrow> 'f Output \<Rightarrow> string \<Rightarrow> Arg list \<Rightarrow> int \<times> 'f Output" where
  "format fw out fmt args =
     (let before = result out;
          s = run fw fmt args (format_init out);
          out1 = (if start s \<noteq> length fmt
                  then Output_write fw (slice fmt (start s) (length fmt)) (outp s)
                  else outp s);
          after = result out1
      in (if after < 0 then after else i32 (after - before), out1))"

text \<open>
  \<^verbatim>\<open>int32_t format(char buffer[], size_t size, const StringView& fmt, Args&&...)\<close>:
  the value returned and the caller's array afterwards. No stream is involved; the
  stream type is \<open>unit\<close> and \<^verbatim>\<open>fwrite\<close> is never called.
\<close>

definition format_buffer :: "string \<Rightarrow> nat \<Rightarrow> string \<Rightarrow> Arg list \<Rightarrow> int \<times> string" where
  "format_buffer buffer sz fmt args =
     (let out = snd (format (\<lambda>data (f::unit). (length data, f)) (Output_buffer buffer sz) fmt args)
      in (result out, mem out))"

text \<open>
  \<^verbatim>\<open>int32_t format(FILE* file, const StringView& fmt, Args&&...)\<close>: the value returned
  and the stream afterwards.
\<close>

definition format_file :: "'f fwrite \<Rightarrow> 'f \<Rightarrow> string \<Rightarrow> Arg list \<Rightarrow> int \<times> 'f option" where
  "format_file fw file fmt args =
     (let out = snd (format fw (Output_stream file) fmt args)
      in (result out, m_stream out))"

section \<open>Notions used in the statements\<close>

text \<open>The values of an \<^verbatim>\<open>int32_t\<close>.\<close>

definition int32 :: "int \<Rightarrow> bool" where
  "int32 x = (- 2147483648 \<le> x \<and> x < 2147483648)"

text \<open>
  What every operation on an output respects: an output whose length is negative is
  left as it is, and a length that is an \<^verbatim>\<open>int32_t\<close> value stays one.
\<close>

definition follows :: "'f Output \<Rightarrow> 'f Output \<Rightarrow> bool" where
  "follows a b = ((m_length a < 0 \<longrightarrow> b = a) \<and> (int32 (m_length a) \<longrightarrow> int32 (m_length b)))"

text \<open>The number that a string of decimal digits denotes: the explicit index.\<close>

definition dec_val :: "string \<Rightarrow> int" where
  "dec_val ds = foldl (\<lambda>a c. a * 10 + digit_val c) 0 ds"

text \<open>The loop's variables after \<open>n\<close> iterations of a call \<^verbatim>\<open>format(output, fmt, args...)\<close>.\<close>

definition reached :: "'f fwrite \<Rightarrow> string \<Rightarrow> Arg list \<Rightarrow> 'f Output \<Rightarrow> nat \<Rightarrow> 'f format_vars" where
  "reached fw fmt args out n = (format_step fw fmt args ^^ n) (format_init out)"

text \<open>
  The characters \<^verbatim>\<open>STATE_OPENER\<close> reacts to, and the position of the first of them at or
  after \<open>p\<close> (\<open>length fmt\<close> when there is none).
\<close>

definition is_brace :: "char \<Rightarrow> bool" where
  "is_brace c = (c = CHR ''{'' \<or> c = CHR ''}'')"

definition next_brace :: "string \<Rightarrow> nat \<Rightarrow> nat" where
  "next_brace fmt p = p + length (takeWhile (\<lambda>c. \<not> is_brace c) (drop p fmt))"

text \<open>
  An invariant of the loop: \<open>start\<close> is not past \<open>nxt\<close>, and outside \<^verbatim>\<open>STATE_OPENER\<close> it is
  the position of the \<^verbatim>\<open>{\<close> that opened the placeholder being read.
\<close>

definition placeholder_open :: "string \<Rightarrow> 'f format_vars \<Rightarrow> bool" where
  "placeholder_open fmt s =
     (start s \<le> nxt s \<and> nxt s \<le> length fmt
      \<and> (state s = STATE_OPENER \<or> (start s < nxt s \<and> fmt ! start s = CHR ''{'')))"

section \<open>Properties of the output\<close>

lemma i32_id: "- 2147483648 \<le> x \<Longrightarrow> x < 2147483648 \<Longrightarrow> i32 x = x"
  by (simp add: i32_def)

lemma u64_id: "0 \<le> x \<Longrightarrow> x < 18446744073709551616 \<Longrightarrow> u64 x = nat x"
  by (simp add: u64_def)

lemma Output_write_neg: "m_length out < 0 \<Longrightarrow> Output_write fw d out = out"
  by (simp add: Output_write_def)

lemma writes_neg: "m_length out < 0 \<Longrightarrow> writes fw ds out = out"
  unfolding writes_def by (induction ds) (simp_all add: Output_write_neg)

lemma writes_Nil: "writes fw [] out = out"
  by (simp add: writes_def)

lemma writes_Cons: "writes fw (d # ds) out = writes fw ds (Output_write fw d out)"
  by (simp add: writes_def)

text \<open>
  Claim C4. A stream write that comes back short sets the length to -1; and once the
  length is -1, a write of a block, a write of a character and any sequence of writes
  leave the whole output (stream, buffer, cursor, size and length) as it was, so that
  \<open>result\<close> stays -1.
\<close>

theorem sticky_error:
  "(0 \<le> m_length out \<and> m_stream out = Some f \<and> fst (fw d f) \<noteq> length d
      \<longrightarrow> m_length (Output_write fw d out) = - 1)
   \<and> (m_length out = - 1 \<longrightarrow>
        Output_write fw d out = out \<and> Output_write_char fw c out = out
        \<and> writes fw ds out = out \<and> result (writes fw ds out) = - 1)"
  by (auto simp: Output_write_def Output_write_char_def writes_neg result_def split: prod.splits)

text \<open>
  A stream with room for two more characters: writing three fails, and the two writes
  that follow change nothing.
\<close>

theorem sticky_error_witness:
  "m_length (Output_write (\<lambda>data (f::nat). (min f (length data), f - length data)) ''abc''
       (Output_stream 2)) = - 1
   \<and> writes (\<lambda>data (f::nat). (min f (length data), f - length data)) [''de'', ''f'']
       (Output_write (\<lambda>data (f::nat). (min f (length data), f - length data)) ''abc''
          (Output_stream 2))
     = Output_write (\<lambda>data (f::nat). (min f (length data), f - length data)) ''abc''
         (Output_stream 2)"
  using sticky_error [of "Output_stream (2::nat)" 2
      "\<lambda>data (f::nat). (min f (length data), f - length data)" "''abc''"]
    sticky_error [of "Output_write (\<lambda>data (f::nat). (min f (length data), f - length data))
        ''abc'' (Output_stream 2)" 2
      "\<lambda>data (f::nat). (min f (length data), f - length data)" "''abc''" "CHR ''x''"
      "[''de'', ''f'']"]
  by (simp add: Output_stream_def Output_write_def)

lemma memcpy_length [simp]: "length (memcpy m dst src) = length m"
  by (induction src arbitrary: m dst) simp_all

lemma memcpy_eq:
  "dst + length src \<le> length m \<Longrightarrow> memcpy m dst src = take dst m @ src @ drop (dst + length src) m"
proof (induction src arbitrary: m dst)
  case Nil
  then show ?case by simp
next
  case (Cons c cs)
  then show ?case
    by (simp add: upd_conv_take_nth_drop take_Suc_conv_app_nth nth_list_update add.commute)
qed

text \<open>What one write does to a buffer-backed output whose length is not negative.\<close>

lemma buffer_write_unfold:
  assumes "m_stream out = None" "1 \<le> m_size out" "m_size out < 2147483648" "0 \<le> m_length out"
  shows "Output_write fw d out =
     out\<lparr>m_length := i32 (m_length out + i32 (int (length d))),
         mem := (memcpy (mem out) (m_buffer out) (take (min (nat (m_size out) - 1) (length d)) d))
                  [m_buffer out + min (nat (m_size out) - 1) (length d) := CHR 0x00],
         m_buffer := m_buffer out + min (nat (m_size out) - 1) (length d),
         m_size := m_size out - int (min (nat (m_size out) - 1) (length d))\<rparr>"
proof -
  have t: "min (u64 (int (u64 (m_size out)) - 1)) (length d) = min (nat (m_size out) - 1) (length d)"
    using assms by (simp add: u64_def nat_diff_distrib)
  have c: "i32 (int (min (nat (m_size out) - 1) (length d))) = int (min (nat (m_size out) - 1) (length d))"
    using assms by (intro i32_id) auto
  have e: "i32 (m_size out - int (min (nat (m_size out) - 1) (length d))) = m_size out - int (min (nat (m_size out) - 1) (length d))"
    using assms by (intro i32_id) auto
  show ?thesis
    using assms c e by (simp add: Output_write_def Let_def t del: of_nat_min)
qed

lemma buffer_write_inv:
  assumes "m_stream out = None" "1 \<le> m_size out" "int (m_buffer out) + m_size out = int cap"
    "cap < 2147483648" "cap \<le> length (mem out)"
  shows "m_stream (Output_write fw d out) = None
    \<and> 1 \<le> m_size (Output_write fw d out)
    \<and> int (m_buffer (Output_write fw d out)) + m_size (Output_write fw d out) = int cap
    \<and> length (mem (Output_write fw d out)) = length (mem out)
    \<and> drop cap (mem (Output_write fw d out)) = drop cap (mem out)
    \<and> (0 \<le> m_length out \<longrightarrow>
         mem (Output_write fw d out) ! m_buffer (Output_write fw d out) = CHR 0x00)
    \<and> (m_length out < 0 \<longrightarrow> Output_write fw d out = out)"
proof (cases "0 \<le> m_length out")
  case False
  then show ?thesis using assms by (simp add: Output_write_neg)
next
  case True
  let ?k = "min (nat (m_size out) - 1) (length d)"
  have sz: "m_size out < 2147483648" using assms by linarith
  have u: "Output_write fw d out =
     out\<lparr>m_length := i32 (m_length out + i32 (int (length d))),
         mem := (memcpy (mem out) (m_buffer out) (take ?k d))[m_buffer out + ?k := CHR 0x00],
         m_buffer := m_buffer out + ?k,
         m_size := m_size out - int ?k\<rparr>"
    using assms True sz by (intro buffer_write_unfold) auto
  have k: "m_buffer out + ?k < cap" using assms by linarith
  have "drop cap ((memcpy (mem out) (m_buffer out) (take ?k d))[m_buffer out + ?k := CHR 0x00])
      = drop cap (memcpy (mem out) (m_buffer out) (take ?k d))"
    using k by simp
  also have "\<dots> = drop cap (mem out)"
    using k assms by (subst memcpy_eq) (auto simp: min_def)
  finally have dr: "drop cap ((memcpy (mem out) (m_buffer out) (take ?k d))[m_buffer out + ?k := CHR 0x00])
      = drop cap (mem out)" .
  show ?thesis
    unfolding u using assms True k dr by (auto simp: min_def)
qed


lemma buffer_write_exact:
  assumes "m_stream out = None" "1 \<le> m_size out" "int (m_buffer out) + m_size out = int cap"
    "cap < 2147483648" "cap \<le> length (mem out)"
    "m_length out = int (length acc)" "length acc + length d < 2147483648"
    "m_buffer out = min (cap - 1) (length acc)"
    "take (m_buffer out) (mem out) = take (cap - 1) acc"
  shows "m_length (Output_write fw d out) = int (length (acc @ d))
    \<and> m_buffer (Output_write fw d out) = min (cap - 1) (length (acc @ d))
    \<and> take (m_buffer (Output_write fw d out)) (mem (Output_write fw d out))
        = take (cap - 1) (acc @ d)"
proof -
  let ?k = "min (nat (m_size out) - 1) (length d)"
  have sz: "m_size out < 2147483648" using assms by linarith
  have u: "Output_write fw d out =
     out\<lparr>m_length := i32 (m_length out + i32 (int (length d))),
         mem := (memcpy (mem out) (m_buffer out) (take ?k d))[m_buffer out + ?k := CHR 0x00],
         m_buffer := m_buffer out + ?k,
         m_size := m_size out - int ?k\<rparr>"
    using assms sz by (intro buffer_write_unfold) auto
  have len: "i32 (m_length out + i32 (int (length d))) = int (length acc + length d)"
    using assms by (simp add: i32_id)
  have k: "m_buffer out + ?k < cap" using assms by linarith
  have ms: "nat (m_size out) = cap - m_buffer out"
    using assms(2,3) by linarith
  have kk: "?k = min (cap - 1 - m_buffer out) (length d)"
    unfolding ms by simp
  have cur: "m_buffer out + ?k = min (cap - 1) (length acc + length d)"
  proof (cases "length acc \<le> cap - 1")
    case True
    then have "m_buffer out = length acc" using assms(8) by simp
    then show ?thesis unfolding kk using True by (simp add: min_def) linarith
  next
    case False
    then have "m_buffer out = cap - 1" using assms(8) by simp
    then show ?thesis unfolding kk using False by simp
  qed
  have "take (m_buffer out + ?k)
          ((memcpy (mem out) (m_buffer out) (take ?k d))[m_buffer out + ?k := CHR 0x00])
        = take (m_buffer out + ?k) (memcpy (mem out) (m_buffer out) (take ?k d))"
    by simp
  also have "\<dots> = take (m_buffer out + ?k)
                     (take (m_buffer out) (mem out) @ take ?k d @ drop (m_buffer out + ?k) (mem out))"
    using k assms(5) by (subst memcpy_eq) simp_all
  also have "\<dots> = take (m_buffer out) (mem out) @ take ?k d"
  proof -
    have "length (take (m_buffer out) (mem out)) = m_buffer out"
      using k assms(5) by simp
    moreover have "length (take ?k d) = ?k"
      by simp
    ultimately show ?thesis
      by (metis append.assoc append_eq_conv_conj length_append)
  qed
  also have "\<dots> = take (cap - 1) acc @ take ?k d"
    using assms by simp
  also have "\<dots> = take (cap - 1) (acc @ d)"
  proof (cases "length acc \<le> cap - 1")
    case True
    then have "m_buffer out = length acc" using assms by simp
    then have "take ?k d = take (cap - 1 - length acc) d"
      unfolding kk by (simp add: min_def)
    then show ?thesis by simp
  next
    case False
    then have "m_buffer out = cap - 1" using assms by simp
    then have "?k = 0" unfolding kk by simp
    then show ?thesis using False by simp
  qed
  finally have content: "take (m_buffer out + ?k)
          ((memcpy (mem out) (m_buffer out) (take ?k d))[m_buffer out + ?k := CHR 0x00])
        = take (cap - 1) (acc @ d)" .
  show ?thesis
    unfolding u using len cur content by simp
qed

lemma writes_buffer_inv:
  assumes "m_stream out = None" "1 \<le> m_size out" "int (m_buffer out) + m_size out = int cap"
    "cap < 2147483648" "cap \<le> length (mem out)" "mem out ! m_buffer out = CHR 0x00"
  shows "m_stream (writes fw ds out) = None
    \<and> 1 \<le> m_size (writes fw ds out)
    \<and> int (m_buffer (writes fw ds out)) + m_size (writes fw ds out) = int cap
    \<and> length (mem (writes fw ds out)) = length (mem out)
    \<and> drop cap (mem (writes fw ds out)) = drop cap (mem out)
    \<and> mem (writes fw ds out) ! m_buffer (writes fw ds out) = CHR 0x00"
  using assms
proof (induction ds arbitrary: out)
  case Nil
  then show ?case by (simp add: writes_Nil)
next
  case (Cons d ds)
  let ?o = "Output_write fw d out"
  have s: "m_stream ?o = None \<and> 1 \<le> m_size ?o \<and> int (m_buffer ?o) + m_size ?o = int cap
      \<and> length (mem ?o) = length (mem out) \<and> drop cap (mem ?o) = drop cap (mem out)
      \<and> (0 \<le> m_length out \<longrightarrow> mem ?o ! m_buffer ?o = CHR 0x00)
      \<and> (m_length out < 0 \<longrightarrow> ?o = out)"
    using Cons.prems by (intro buffer_write_inv) auto
  have t: "mem ?o ! m_buffer ?o = CHR 0x00"
    using s Cons.prems(6) by (cases "0 \<le> m_length out") auto
  have "m_stream (writes fw ds ?o) = None
    \<and> 1 \<le> m_size (writes fw ds ?o)
    \<and> int (m_buffer (writes fw ds ?o)) + m_size (writes fw ds ?o) = int cap
    \<and> length (mem (writes fw ds ?o)) = length (mem ?o)
    \<and> drop cap (mem (writes fw ds ?o)) = drop cap (mem ?o)
    \<and> mem (writes fw ds ?o) ! m_buffer (writes fw ds ?o) = CHR 0x00"
    using s t Cons.prems by (intro Cons.IH) auto
  then show ?case using s by (simp add: writes_Cons)
qed

lemma writes_buffer_exact:
  assumes "m_stream out = None" "1 \<le> m_size out" "int (m_buffer out) + m_size out = int cap"
    "cap < 2147483648" "cap \<le> length (mem out)"
    "m_length out = int (length acc)" "length acc + sum_list (map length ds) < 2147483648"
    "m_buffer out = min (cap - 1) (length acc)"
    "take (m_buffer out) (mem out) = take (cap - 1) acc"
  shows "m_length (writes fw ds out) = int (length acc + sum_list (map length ds))
    \<and> m_buffer (writes fw ds out) = min (cap - 1) (length acc + sum_list (map length ds))
    \<and> take (m_buffer (writes fw ds out)) (mem (writes fw ds out))
        = take (cap - 1) (acc @ concat ds)"
  using assms
proof (induction ds arbitrary: out acc)
  case Nil
  then show ?case by (simp add: writes_Nil)
next
  case (Cons d ds)
  let ?o = "Output_write fw d out"
  have i: "m_stream ?o = None \<and> 1 \<le> m_size ?o \<and> int (m_buffer ?o) + m_size ?o = int cap
      \<and> length (mem ?o) = length (mem out)"
    using buffer_write_inv [of out cap fw d] Cons.prems by simp
  have e: "m_length ?o = int (length (acc @ d))
    \<and> m_buffer ?o = min (cap - 1) (length (acc @ d))
    \<and> take (m_buffer ?o) (mem ?o) = take (cap - 1) (acc @ d)"
    using Cons.prems by (intro buffer_write_exact) auto
  have "m_length (writes fw ds ?o) = int (length (acc @ d) + sum_list (map length ds))
    \<and> m_buffer (writes fw ds ?o) = min (cap - 1) (length (acc @ d) + sum_list (map length ds))
    \<and> take (m_buffer (writes fw ds ?o)) (mem (writes fw ds ?o))
        = take (cap - 1) ((acc @ d) @ concat ds)"
    using i e Cons.prems by (intro Cons.IH) auto
  moreover have "length (acc @ d) + sum_list (map length ds)
      = length acc + sum_list (map length (d # ds))"
    by simp
  moreover have "(acc @ d) @ concat ds = acc @ concat (d # ds)"
    by simp
  moreover have "writes fw (d # ds) out = writes fw ds ?o"
    by (rule writes_Cons)
  ultimately show ?case by metis
qed

text \<open>
  Claim C3. A buffer-backed output is one made by \<open>Output_buffer\<close> over an array of at
  least \<open>cap\<close> characters, with \<open>0 < cap\<close> (with \<open>cap = 0\<close> the output only counts);
  \<open>cap\<close> fits \<^verbatim>\<open>int32_t\<close>. The cursor \<open>m_buffer\<close> starts at 0 and moves by the number
  of characters each write copies, so it is the count of content characters copied.
  After any sequence \<open>ds\<close> of writes: if the requested lengths sum to less than \<open>2^31\<close>
  then \<open>result\<close> is that sum, \<open>min (cap - 1)\<close> of it was copied, and the copied
  characters are the first ones requested; in every case at most \<open>cap - 1\<close> characters
  were copied, nothing at or past offset \<open>cap\<close> of the array changed, and after at
  least one write the character at the cursor is the terminator.
\<close>

theorem buffer_write_contract:
  fixes fw :: "'f fwrite"
  assumes "0 < cap" "cap < 2147483648" "cap \<le> length buffer"
  shows "(sum_list (map length ds) < 2147483648 \<longrightarrow>
            result (writes fw ds (Output_buffer buffer cap)) = int (sum_list (map length ds))
          \<and> m_buffer (writes fw ds (Output_buffer buffer cap))
              = min (cap - 1) (sum_list (map length ds))
          \<and> take (m_buffer (writes fw ds (Output_buffer buffer cap)))
                  (mem (writes fw ds (Output_buffer buffer cap)))
              = take (cap - 1) (concat ds))
       \<and> m_buffer (writes fw ds (Output_buffer buffer cap)) \<le> cap - 1
       \<and> length (mem (writes fw ds (Output_buffer buffer cap))) = length buffer
       \<and> drop cap (mem (writes fw ds (Output_buffer buffer cap))) = drop cap buffer
       \<and> (ds \<noteq> [] \<longrightarrow>
            mem (writes fw ds (Output_buffer buffer cap))
              ! m_buffer (writes fw ds (Output_buffer buffer cap)) = CHR 0x00)"
proof -
  let ?o = "Output_buffer buffer cap :: 'f Output"
  have sz: "m_size ?o = int cap"
    using assms by (simp add: Output_buffer_def i32_id)
  have o: "m_stream ?o = None" "1 \<le> m_size ?o" "int (m_buffer ?o) + m_size ?o = int cap"
    "cap \<le> length (mem ?o)" "m_length ?o = 0" "m_buffer ?o = 0" "mem ?o = buffer"
    using assms sz by (simp_all add: Output_buffer_def)
  have "sum_list (map length ds) < 2147483648 \<Longrightarrow>
      m_length (writes fw ds ?o) = int (length ([]::string) + sum_list (map length ds))
    \<and> m_buffer (writes fw ds ?o) = min (cap - 1) (length ([]::string) + sum_list (map length ds))
    \<and> take (m_buffer (writes fw ds ?o)) (mem (writes fw ds ?o))
        = take (cap - 1) ([] @ concat ds)"
    using o assms by (intro writes_buffer_exact) auto
  moreover have "length ([]::string) + sum_list (map length ds) = sum_list (map length ds)"
    "[] @ concat ds = concat ds"
    by simp_all
  ultimately have exact: "sum_list (map length ds) < 2147483648 \<Longrightarrow>
      result (writes fw ds ?o) = int (sum_list (map length ds))
    \<and> m_buffer (writes fw ds ?o) = min (cap - 1) (sum_list (map length ds))
    \<and> take (m_buffer (writes fw ds ?o)) (mem (writes fw ds ?o)) = take (cap - 1) (concat ds)"
    unfolding result_def by metis
  have frame: "m_buffer (writes fw ds ?o) \<le> cap - 1
       \<and> length (mem (writes fw ds ?o)) = length buffer
       \<and> drop cap (mem (writes fw ds ?o)) = drop cap buffer
       \<and> (ds \<noteq> [] \<longrightarrow> mem (writes fw ds ?o) ! m_buffer (writes fw ds ?o) = CHR 0x00)"
  proof (cases ds)
    case Nil
    then show ?thesis using o by (simp add: writes_Nil)
  next
    case (Cons d es)
    let ?p = "Output_write fw d ?o"
    have s: "m_stream ?p = None \<and> 1 \<le> m_size ?p \<and> int (m_buffer ?p) + m_size ?p = int cap
      \<and> length (mem ?p) = length (mem ?o) \<and> drop cap (mem ?p) = drop cap (mem ?o)
      \<and> (0 \<le> m_length ?o \<longrightarrow> mem ?p ! m_buffer ?p = CHR 0x00)
      \<and> (m_length ?o < 0 \<longrightarrow> ?p = ?o)"
      using o assms by (intro buffer_write_inv) auto
    have "m_stream (writes fw es ?p) = None
      \<and> 1 \<le> m_size (writes fw es ?p)
      \<and> int (m_buffer (writes fw es ?p)) + m_size (writes fw es ?p) = int cap
      \<and> length (mem (writes fw es ?p)) = length (mem ?p)
      \<and> drop cap (mem (writes fw es ?p)) = drop cap (mem ?p)
      \<and> mem (writes fw es ?p) ! m_buffer (writes fw es ?p) = CHR 0x00"
      using s o assms by (intro writes_buffer_inv) auto
    then show ?thesis using s o Cons by (simp add: writes_Cons) linarith
  qed
  show ?thesis using exact frame by blast
qed

text \<open>
  Writing \<^verbatim>\<open>foo\<close> and \<^verbatim>\<open>bar\<close> into four characters of a six-character array: the
  result is 6, three characters are copied and the fourth is the terminator.
\<close>

theorem buffer_write_contract_witness:
  "result (writes (\<lambda>data (f::unit). (length data, f)) [''foo'', ''bar'']
       (Output_buffer (replicate 6 (CHR 0x7F)) 4)) = 6
   \<and> m_buffer (writes (\<lambda>data (f::unit). (length data, f)) [''foo'', ''bar'']
       (Output_buffer (replicate 6 (CHR 0x7F)) 4)) = 3
   \<and> mem (writes (\<lambda>data (f::unit). (length data, f)) [''foo'', ''bar'']
       (Output_buffer (replicate 6 (CHR 0x7F)) 4))
     = ''foo'' @ [CHR 0x00, CHR 0x7F, CHR 0x7F]"
proof -
  have ev: "mem (writes (\<lambda>data (f::unit). (length data, f)) [''foo'', ''bar'']
       (Output_buffer (replicate 6 (CHR 0x7F)) 4))
     = ''foo'' @ [CHR 0x00, CHR 0x7F, CHR 0x7F]"
    by code_simp
  show ?thesis
    using ev buffer_write_contract [of 4 "replicate 6 (CHR 0x7F)" "[''foo'', ''bar'']"
      "\<lambda>data (f::unit). (length data, f)"]
    by simp
qed

section \<open>Properties of the renderers and of the engine\<close>

lemma i32_int32: "int32 (i32 x)"
  by (simp add: i32_def int32_def)

lemma follows_refl: "follows a a"
  by (simp add: follows_def)

lemma follows_trans: "follows a b \<Longrightarrow> follows b c \<Longrightarrow> follows a c"
  by (auto simp: follows_def)

lemma int32_minus1: "int32 (- 1)"
  by (simp add: int32_def)

lemma follows_write: "follows out (Output_write fw d out)"
  by (auto simp: follows_def Output_write_def Let_def i32_int32 int32_minus1
      split: option.splits prod.splits)

lemma follows_write_char: "follows out (Output_write_char fw c out)"
  by (simp add: Output_write_char_def follows_write)

lemma follows_write_fill: "follows out (write_fill fw c n out)"
proof (induction n arbitrary: out)
  case 0
  then show ?case by (simp add: write_fill.simps follows_refl)
next
  case (Suc n)
  have "follows out (Output_write_char fw c out)" by (rule follows_write_char)
  moreover have "follows (Output_write_char fw c out) (write_fill fw c n (Output_write_char fw c out))"
    by (rule Suc.IH)
  ultimately show ?case
    by (subst write_fill.simps) (auto intro: follows_trans)
qed

lemma follows_writeI: "follows a b \<Longrightarrow> follows a (Output_write fw d b)"
  by (rule follows_trans [OF _ follows_write])

lemma follows_write_charI: "follows a b \<Longrightarrow> follows a (Output_write_char fw c b)"
  by (rule follows_trans [OF _ follows_write_char])

lemma follows_write_fillI: "follows a b \<Longrightarrow> follows a (write_fill fw c n b)"
  by (rule follows_trans [OF _ follows_write_fill])

lemma follows_ifI: "follows a b \<Longrightarrow> follows a c \<Longrightarrow> follows a (if P then b else c)"
  by simp

lemmas follows_intros =
  follows_ifI follows_write_fillI follows_writeI follows_write_charI follows_refl

lemma format_int_ok: "fst (format_int fw out flags neg v) = True"
  by (simp add: format_int_def Let_def split_beta)

lemma follows_format_int: "follows out (snd (format_int fw out flags neg v))"
  unfolding format_int_def Let_def split_beta snd_conv
  by (intro follows_intros)

lemma format_string_ok: "fst (format_string fw out fmt str) = fst (parse_format fmt)"
  by (simp add: format_string_def Let_def split_beta)

lemma format_string_fail: "\<not> fst (parse_format fmt) \<Longrightarrow> snd (format_string fw out fmt str) = out"
  by (simp add: format_string_def Let_def split_beta)

lemma follows_format_string: "follows out (snd (format_string fw out fmt str))"
  unfolding format_string_def Let_def split_beta
  by (simp only: if_distrib [of snd] snd_conv) (intro follows_intros)

lemma format_value_ok:
  "fst (format_value fw out fmt a) = (a \<noteq> ArgDummy \<and> fst (parse_format fmt))"
  by (cases a) (simp_all add: format_string_ok format_int_ok Let_def split_beta)

lemma format_value_fail:
  "\<not> fst (format_value fw out fmt a) \<Longrightarrow> snd (format_value fw out fmt a) = out"
  by (cases a; cases "fst (parse_format fmt)")
    (simp_all add: format_string_ok format_string_fail format_int_ok Let_def split_beta)

lemma follows_format_value: "follows out (snd (format_value fw out fmt a))"
proof (cases a)
  case (ArgBool b)
  then show ?thesis by (simp add: follows_format_string)
next
  case (ArgLongLong v)
  then show ?thesis
    by (simp add: Let_def split_beta if_distrib [of snd] follows_format_int follows_refl)
next
  case (ArgULongLong v)
  then show ?thesis
    by (simp add: Let_def split_beta if_distrib [of snd] follows_format_int follows_refl)
next
  case (ArgStr str)
  then show ?thesis by (simp add: follows_format_string)
next
  case (ArgPtr v)
  then show ?thesis
    by (simp add: Let_def split_beta if_distrib [of snd] follows_format_int follows_refl)
next
  case ArgDummy
  then show ?thesis by (simp add: follows_refl)
qed

lemma format_index_ok:
  "fst (format_index fw out fmt i args)
     = (0 \<le> i \<and> i < int (length args) \<and> args ! nat i \<noteq> ArgDummy \<and> fst (parse_format fmt))"
proof (induction args arbitrary: i)
  case Nil
  then show ?case by simp
next
  case (Cons a args)
  show ?case
  proof (cases "i = 0")
    case True
    then show ?thesis by (simp add: format_value_ok)
  next
    case False
    show ?thesis
    proof (cases "0 < i")
      case True
      then have "nat i = Suc (nat (i - 1))" by simp
      then show ?thesis using False True Cons.IH [of "i - 1"] by auto
    next
      case neg: False
      then show ?thesis using False Cons.IH [of "i - 1"] by simp
    qed
  qed
qed

lemma format_index_fail:
  "\<not> fst (format_index fw out fmt i args) \<Longrightarrow> snd (format_index fw out fmt i args) = out"
  by (induction args arbitrary: i) (auto simp: format_value_fail split: if_splits)

lemma follows_format_index: "follows out (snd (format_index fw out fmt i args))"
  by (induction args arbitrary: i) (simp_all add: follows_format_value follows_refl)


lemma follows_format_step: "follows (outp s) (outp (format_step fw fmt args s))"
proof (cases "state s")
  case STATE_OPENER
  then show ?thesis
    by (simp add: format_step_def Let_def follows_write follows_refl)
next
  case STATE_INDEX
  then show ?thesis
    by (simp add: format_step_def Let_def follows_refl)
next
  case STATE_MARKER
  then show ?thesis
    by (simp add: format_step_def Let_def follows_refl)
next
  case STATE_FLAGS
  then show ?thesis
    by (simp add: format_step_def Let_def follows_refl)
next
  case STATE_CLOSER
  have "follows (outp s) (snd (format_index fw (outp s) spec (index s) args))" for spec
    by (rule follows_format_index)
  then show ?thesis using STATE_CLOSER
    by (simp add: format_step_def Let_def split_beta follows_refl)
qed

lemma follows_run: "follows (outp s) (outp (run fw fmt args s))"
proof (induction fw fmt args s rule: run.induct)
  case (1 fw fmt args s)
  show ?case
  proof (cases "nxt s < length fmt")
    case True
    have "follows (outp s) (outp (format_step fw fmt args s))"
      by (rule follows_format_step)
    moreover have "follows (outp (format_step fw fmt args s))
        (outp (run fw fmt args (format_step fw fmt args s)))"
      using True by (rule "1.IH")
    ultimately show ?thesis
      using True by (subst run.simps) (auto intro: follows_trans)
  next
    case False
    then show ?thesis by (subst run.simps) (simp add: follows_refl)
  qed
qed

lemma follows_format: "follows out (snd (format fw out fmt args))"
proof -
  have "follows (outp (format_init out)) (outp (run fw fmt args (format_init out)))"
    by (rule follows_run)
  then have "follows out (outp (run fw fmt args (format_init out)))"
    by (simp add: format_init_def)
  then show ?thesis
    by (simp add: format_def Let_def follows_writeI)
qed

text \<open>
  Claim C10. For every output whose length is an \<^verbatim>\<open>int32_t\<close> value, whatever it already
  holds: \<open>format\<close> returns the output's \<open>result\<close> as it is when that is negative after
  the call, and otherwise the difference between the \<open>result\<close> after and before the
  call (no wrap-around occurs in the subtraction); an output that is in the error
  state before the call is returned unchanged.
\<close>

theorem format_return_value:
  assumes "- 2147483648 \<le> m_length out" and "m_length out < 2147483648"
  shows "fst (format fw out fmt args) =
           (if result (snd (format fw out fmt args)) < 0
            then result (snd (format fw out fmt args))
            else result (snd (format fw out fmt args)) - result out)
         \<and> (result out < 0 \<longrightarrow> snd (format fw out fmt args) = out)"
proof -
  let ?after = "result (snd (format fw out fmt args))"
  have f: "follows out (snd (format fw out fmt args))"
    by (rule follows_format)
  have r: "int32 ?after"
    using f assms by (simp add: follows_def int32_def result_def)
  have unchanged: "result out < 0 \<longrightarrow> snd (format fw out fmt args) = out"
    using f by (simp add: follows_def result_def)
  have ret: "fst (format fw out fmt args) = (if ?after < 0 then ?after else i32 (?after - result out))"
    by (simp add: format_def Let_def)
  have "i32 (?after - result out) = ?after - result out" if "0 \<le> ?after"
  proof -
    have "0 \<le> result out"
      using unchanged that by (cases "result out < 0") auto
    then show ?thesis
      using that r assms by (intro i32_id) (simp_all add: int32_def result_def)
  qed
  then show ?thesis using ret unchanged by simp
qed

text \<open>
  An eight-character buffer that already holds \<^verbatim>\<open>abc\<close>: formatting \<^verbatim>\<open>x{}\<close> with the
  argument 5 returns 2, while the output's result is 5.
\<close>

theorem format_return_value_witness:
  "fst (format (\<lambda>data (f::unit). (length data, f))
          (Output_write (\<lambda>data (f::unit). (length data, f)) ''abc''
             (Output_buffer (replicate 8 (CHR 0x7F)) 8))
          ''x{}'' [ArgLongLong 5]) = 2
   \<and> result (snd (format (\<lambda>data (f::unit). (length data, f))
          (Output_write (\<lambda>data (f::unit). (length data, f)) ''abc''
             (Output_buffer (replicate 8 (CHR 0x7F)) 8))
          ''x{}'' [ArgLongLong 5])) = 5"
proof -
  have ev: "result (snd (format (\<lambda>data (f::unit). (length data, f))
          (Output_write (\<lambda>data (f::unit). (length data, f)) ''abc''
             (Output_buffer (replicate 8 (CHR 0x7F)) 8))
          ''x{}'' [ArgLongLong 5])) = 5"
    by code_simp
  have b: "result (Output_write (\<lambda>data (f::unit). (length data, f)) ''abc''
             (Output_buffer (replicate 8 (CHR 0x7F)) 8)) = 3"
    by code_simp
  show ?thesis
    using ev b format_return_value [of "Output_write (\<lambda>data (f::unit). (length data, f)) ''abc''
             (Output_buffer (replicate 8 (CHR 0x7F)) 8)" "\<lambda>data (f::unit). (length data, f)"
             "''x{}''" "[ArgLongLong 5]"]
    by (simp add: result_def)
qed

section \<open>The engine on the inputs of the test suite\<close>

text \<open>
  Claim C1 (the code departs from it). \<^verbatim>\<open>format("{1:.{0}}", 3, "ooga")\<close> into a
  16-character buffer: in \<^verbatim>\<open>STATE_FLAGS\<close> the \<^verbatim>\<open>{\<close> ends the spec, \<^verbatim>\<open>STATE_CLOSER\<close> then
  finds no \<^verbatim>\<open>}\<close> and gives the placeholder up, and the text comes out as literal
  \<^verbatim>\<open>{1:.{0}\<close> (the closing \<^verbatim>\<open>}}\<close> as an escaped brace), not \<^verbatim>\<open>oog\<close>.
\<close>

theorem nested_placeholder_not_resolved:
  "format_buffer (replicate 16 (CHR 0x7F)) 16 ''{1:.{0}}'' [ArgLongLong 3, ArgStr ''ooga'']
     = (7, ''{1:.{0}'' @ [CHR 0x00] @ replicate 8 (CHR 0x7F))"
  by code_simp

text \<open>
  For every template: a \<^verbatim>\<open>{\<close> read in \<^verbatim>\<open>STATE_FLAGS\<close> leads, two iterations later, back
  to \<^verbatim>\<open>STATE_OPENER\<close> with nothing dispatched and nothing written; the engine is never
  entered again on the spec.
\<close>

lemma brace_in_spec_abandons_placeholder:
  assumes "state s = STATE_FLAGS" "fmt ! nxt s = CHR ''{''"
  shows "format_step fw fmt args (format_step fw fmt args s)
     = s\<lparr>formatStart := (if formatStart s = None then Some (nxt s) else formatStart s),
         nxt := nxt s + 1, state := STATE_OPENER\<rparr>"
  using assms by (simp add: format_step_def Let_def)

text \<open>
  Claim C6 (the code departs from it). \<^verbatim>\<open>format("{:#08x}", 1)\<close>: the prefix \<^verbatim>\<open>0x\<close> is
  stored with the digits, the padding of align \<^verbatim>\<open>=\<close> goes before them, and the output
  is \<^verbatim>\<open>000000x1\<close>, not \<^verbatim>\<open>0x000001\<close>.
\<close>

theorem alternate_prefix_after_zero_padding:
  "format_buffer (replicate 16 (CHR 0x7F)) 16 ''{:#08x}'' [ArgLongLong 1]
     = (8, ''000000x1'' @ [CHR 0x00] @ replicate 7 (CHR 0x7F))"
  by code_simp

text \<open>The other example of claim C6 holds: \<^verbatim>\<open>format("{:=+5}", 52)\<close> is \<^verbatim>\<open>+  52\<close>.\<close>

lemma sign_before_padding_example:
  "format_buffer (replicate 16 (CHR 0x7F)) 16 ''{:=+5}'' [ArgLongLong 52]
     = (5, ''+  52'' @ [CHR 0x00] @ replicate 10 (CHR 0x7F))"
  by code_simp

text \<open>
  Claim C7 (the code departs from it). The spec \<^verbatim>\<open><#08x\<close> sets align \<^verbatim>\<open><\<close> in the
  align stage; the leading \<^verbatim>\<open>0\<close> of the width then overwrites it with \<^verbatim>\<open>=\<close>, and
  \<^verbatim>\<open>format("{:<#08x}", 1)\<close> is \<^verbatim>\<open>000000x1\<close>, not the left-aligned \<^verbatim>\<open>0x100000\<close>.
\<close>

theorem leading_zero_overrides_explicit_align:
  "parse_format ''<#08x''
     = (True, \<lparr>fill = CHR ''0'', align = CHR ''='', sign = CHR 0x00, alternate = True,
               width = 8, precision = - 1, ftype = CHR ''x''\<rparr>)
   \<and> format_buffer (replicate 16 (CHR 0x7F)) 16 ''{:<#08x}'' [ArgLongLong 1]
     = (8, ''000000x1'' @ [CHR 0x00] @ replicate 7 (CHR 0x7F))"
  by code_simp

text \<open>
  For every spec: the first width digit, when it is \<^verbatim>\<open>0\<close>, sets fill and align whatever
  the align stage left in the flags.
\<close>

lemma leading_zero_unconditional:
  assumes "width flags < 0" "fmt ! p = CHR ''0''"
  shows "parse_step fmt (STATE_WIDTH, p, flags)
     = Some (STATE_WIDTH, p + 1, flags\<lparr>fill := CHR ''0'', align := CHR ''='', width := 0\<rparr>)"
  using assms by (simp add: parse_step_def Let_def is_digit_def digit_val_def i32_def)

text \<open>
  Claim C8 (the code departs from it). \<^verbatim>\<open>c\<close> is not among the type characters of
  \<^verbatim>\<open>parse_format\<close>: the spec \<^verbatim>\<open>c\<close> does not parse, and \<^verbatim>\<open>format("{:c}", 65)\<close> is the
  literal \<^verbatim>\<open>{:c}\<close>, not \<^verbatim>\<open>A\<close>.
\<close>

theorem type_c_rejected:
  "fst (parse_format ''c'') = False
   \<and> format_buffer (replicate 16 (CHR 0x7F)) 16 ''{:c}'' [ArgLongLong 65]
     = (4, ''{:c}'' @ [CHR 0x00] @ replicate 11 (CHR 0x7F))"
  by code_simp

text \<open>For every spec: \<^verbatim>\<open>STATE_TYPE\<close> leaves a \<^verbatim>\<open>c\<close> unconsumed, for \<^verbatim>\<open>STATE_DONE\<close> to reject.\<close>

lemma type_c_left_unconsumed:
  assumes "fmt ! p = CHR ''c''"
  shows "parse_step fmt (STATE_TYPE, p, flags) = Some (STATE_DONE, p, flags)"
  using assms by (simp add: parse_step_def Let_def)

text \<open>
  Claim C9 (the code departs from it). \<^verbatim>\<open>format(buffer, "{}{}{}{}", 1, 2, 3, 4)\<close> with a
  four-character buffer returns 4, and the buffer holds \<^verbatim>\<open>123\<close> and the terminator:
  the fourth digit is not stored.
\<close>

theorem four_digits_into_four_bytes:
  "format_buffer (replicate 4 (CHR 0x7F)) 4 ''{}{}{}{}''
       [ArgLongLong 1, ArgLongLong 2, ArgLongLong 3, ArgLongLong 4]
     = (4, ''123'' @ [CHR 0x00])"
  by code_simp

section \<open>The argument index\<close>

lemma dec_val_snoc: "dec_val (ds @ [c]) = dec_val ds * 10 + digit_val c"
  by (simp add: dec_val_def)

lemma digit_val_range: "is_digit c \<Longrightarrow> 0 \<le> digit_val c \<and> digit_val c \<le> 9"
  by (auto simp: is_digit_def digit_val_def)

lemma dec_val_nonneg: "\<forall>c\<in>set ds. is_digit c \<Longrightarrow> 0 \<le> dec_val ds"
proof (induction ds rule: rev_induct)
  case Nil
  then show ?case by (simp add: dec_val_def)
next
  case (snoc c ds)
  then show ?case using digit_val_range [of c] by (simp add: dec_val_snoc)
qed

lemma slice_Suc:
  "p + k < length fmt \<Longrightarrow> slice fmt p (p + Suc k) = slice fmt p (p + k) @ [fmt ! (p + k)]"
  by (simp add: slice_def take_Suc_conv_app_nth)

lemma set_slice_digits:
  assumes "\<And>i. i < k \<Longrightarrow> is_digit (fmt ! (p + i))" "p + k \<le> length fmt"
  shows "\<forall>c\<in>set (slice fmt p (p + k)). is_digit c"
proof
  fix c assume "c \<in> set (slice fmt p (p + k))"
  then obtain i where "i < k" "c = fmt ! (p + i)"
    using assms(2) by (auto simp: slice_def in_set_conv_nth)
  then show "is_digit c" using assms(1) by simp
qed

lemma step_INDEX_digit:
  assumes "state s = STATE_INDEX" "is_digit (fmt ! nxt s)"
  shows "format_step fw fmt args s =
     s\<lparr>nxt := nxt s + 1,
       index := (if index s < 0 then digit_val (fmt ! nxt s)
                 else i32 (i32 (index s * 10) + digit_val (fmt ! nxt s)))\<rparr>"
  using assms by (simp add: format_step_def Let_def)

lemma step_INDEX_other:
  assumes "state s = STATE_INDEX" "\<not> is_digit (fmt ! nxt s)"
  shows "format_step fw fmt args s =
     s\<lparr>index := (if index s < 0 then i32 (prev s + 1) else index s),
       prev := (if index s < 0 then i32 (prev s + 1) else index s),
       state := STATE_MARKER\<rparr>"
  using assms by (simp add: format_step_def Let_def)

lemma scan_digits:
  assumes "state s = STATE_INDEX" "index s = - 1" "nxt s + k \<le> length fmt"
    "\<And>i. i < k \<Longrightarrow> is_digit (fmt ! (nxt s + i))"
    "dec_val (slice fmt (nxt s) (nxt s + k)) < 2147483648"
  shows "(format_step fw fmt args ^^ k) s =
     s\<lparr>nxt := nxt s + k,
       index := (if k = 0 then - 1 else dec_val (slice fmt (nxt s) (nxt s + k)))\<rparr>"
  using assms
proof (induction k)
  case 0
  then show ?case by simp
next
  case (Suc k)
  let ?p = "nxt s"
  let ?d = "digit_val (fmt ! (?p + k))"
  have lt: "?p + k < length fmt" using Suc.prems(3) by simp
  have dig: "is_digit (fmt ! (?p + k))" using Suc.prems(4) by simp
  have d: "0 \<le> ?d" "?d \<le> 9" using digit_val_range [OF dig] by simp_all
  have sl: "slice fmt ?p (?p + Suc k) = slice fmt ?p (?p + k) @ [fmt ! (?p + k)]"
    using lt by (rule slice_Suc)
  have nn: "0 \<le> dec_val (slice fmt ?p (?p + k))"
    by (rule dec_val_nonneg, rule set_slice_digits) (use Suc.prems lt in auto)
  have dv: "dec_val (slice fmt ?p (?p + Suc k)) = dec_val (slice fmt ?p (?p + k)) * 10 + ?d"
    unfolding sl by (rule dec_val_snoc)
  have small: "dec_val (slice fmt ?p (?p + k)) < 2147483648"
    using Suc.prems(5) nn d unfolding dv by linarith
  have IH: "(format_step fw fmt args ^^ k) s =
     s\<lparr>nxt := ?p + k, index := (if k = 0 then - 1 else dec_val (slice fmt ?p (?p + k)))\<rparr>"
    using Suc.prems lt small by (intro Suc.IH) auto
  let ?t = "s\<lparr>nxt := ?p + k, index := (if k = 0 then - 1 else dec_val (slice fmt ?p (?p + k)))\<rparr>"
  have st: "format_step fw fmt args ?t =
     ?t\<lparr>nxt := nxt ?t + 1,
        index := (if index ?t < 0 then digit_val (fmt ! nxt ?t)
                  else i32 (i32 (index ?t * 10) + digit_val (fmt ! nxt ?t)))\<rparr>"
    using Suc.prems(1) dig by (intro step_INDEX_digit) simp_all
  have idx: "(if index ?t < 0 then digit_val (fmt ! nxt ?t)
              else i32 (i32 (index ?t * 10) + digit_val (fmt ! nxt ?t)))
           = dec_val (slice fmt ?p (?p + Suc k))"
  proof (cases "k = 0")
    case True
    then show ?thesis using dv by (simp add: slice_def dec_val_def)
  next
    case False
    have a: "i32 (dec_val (slice fmt ?p (?p + k)) * 10) = dec_val (slice fmt ?p (?p + k)) * 10"
      using nn Suc.prems(5) d unfolding dv by (intro i32_id) linarith+
    have b: "i32 (dec_val (slice fmt ?p (?p + k)) * 10 + ?d) = dec_val (slice fmt ?p (?p + k)) * 10 + ?d"
      using nn Suc.prems(5) d unfolding dv by (intro i32_id) linarith+
    show ?thesis using False nn a b dv by simp
  qed
  have "(format_step fw fmt args ^^ Suc k) s = format_step fw fmt args ?t"
    using IH by simp
  also have "\<dots> = ?t\<lparr>nxt := nxt ?t + 1, index := dec_val (slice fmt ?p (?p + Suc k))\<rparr>"
    unfolding st idx ..
  also have "\<dots> = s\<lparr>nxt := ?p + Suc k,
       index := (if Suc k = 0 then - 1 else dec_val (slice fmt ?p (?p + Suc k)))\<rparr>"
    by simp
  finally show ?case .
qed


lemma step_prev_frame:
  "state t \<noteq> STATE_INDEX \<or> is_digit (fmt ! nxt t) \<Longrightarrow> prev (format_step fw fmt args t) = prev t"
  by (cases "state t") (auto simp: format_step_def Let_def split_beta)

lemma step_index_frame:
  "state t = STATE_MARKER \<or> state t = STATE_FLAGS \<or> state t = STATE_CLOSER
     \<Longrightarrow> index (format_step fw fmt args t) = index t"
  by (cases "state t") (auto simp: format_step_def Let_def split_beta)

lemma step_OPENER_open:
  assumes "state t = STATE_OPENER" "fmt ! nxt t = CHR ''{''" "nxt t + 1 < length fmt"
    "fmt ! (nxt t + 1) \<noteq> CHR ''{''"
  shows "format_step fw fmt args t =
     t\<lparr>nxt := nxt t + 1, outp := Output_write fw (slice fmt (start t) (nxt t)) (outp t),
       index := - 1, start := nxt t, formatStart := None, state := STATE_INDEX\<rparr>"
  using assms by (simp add: format_step_def Let_def)

text \<open>
  Claim C5. The counter is the loop variable \<open>prev\<close>; it starts at -1. A placeholder is
  opened in \<^verbatim>\<open>STATE_OPENER\<close>, which sets \<open>index\<close> to -1 and enters \<^verbatim>\<open>STATE_INDEX\<close>. From
  there, over \<open>k\<close> digits followed by a character that is no digit, \<open>k + 1\<close> iterations
  of the loop leave \<open>index\<close> at \<open>prev + 1\<close> when there is no digit and at the number the
  digits denote otherwise, and set \<open>prev\<close> to that same index (where the digits'
  number and \<open>prev + 1\<close> fit \<^verbatim>\<open>int32_t\<close>). No other iteration assigns \<open>prev\<close>, and
  the states between \<^verbatim>\<open>STATE_INDEX\<close> and the dispatch keep \<open>index\<close>. In particular
  \<^verbatim>\<open>format("{} {} {1} {} {1}", 0, 1, 2)\<close> is \<^verbatim>\<open>0 1 1 2 1\<close>.
\<close>

theorem auto_increment_index:
  "(state s = STATE_INDEX \<and> index s = - 1 \<and> nxt s + k < length fmt
      \<and> (\<forall>i<k. is_digit (fmt ! (nxt s + i))) \<and> \<not> is_digit (fmt ! (nxt s + k))
      \<and> dec_val (slice fmt (nxt s) (nxt s + k)) < 2147483648
      \<and> - 1 \<le> prev s \<and> prev s < 2147483647
    \<longrightarrow> (format_step fw fmt args ^^ (k + 1)) s
          = s\<lparr>nxt := nxt s + k, state := STATE_MARKER,
              index := (if k = 0 then prev s + 1 else dec_val (slice fmt (nxt s) (nxt s + k))),
              prev := (if k = 0 then prev s + 1 else dec_val (slice fmt (nxt s) (nxt s + k)))\<rparr>)
   \<and> prev (format_init out) = - 1
   \<and> (state t \<noteq> STATE_INDEX \<or> is_digit (fmt ! nxt t)
        \<longrightarrow> prev (format_step fw fmt args t) = prev t)
   \<and> (state t = STATE_MARKER \<or> state t = STATE_FLAGS \<or> state t = STATE_CLOSER
        \<longrightarrow> index (format_step fw fmt args t) = index t)
   \<and> (state t = STATE_OPENER \<and> fmt ! nxt t = CHR ''{'' \<and> nxt t + 1 < length fmt
        \<and> fmt ! (nxt t + 1) \<noteq> CHR ''{''
        \<longrightarrow> state (format_step fw fmt args t) = STATE_INDEX
            \<and> index (format_step fw fmt args t) = - 1
            \<and> nxt (format_step fw fmt args t) = nxt t + 1)
   \<and> format_buffer (replicate 16 (CHR 0x7F)) 16 ''{} {} {1} {} {1}''
        [ArgLongLong 0, ArgLongLong 1, ArgLongLong 2]
      = (9, ''0 1 1 2 1'' @ [CHR 0x00] @ replicate 6 (CHR 0x7F))"
proof -
  have scan: "(format_step fw fmt args ^^ (k + 1)) s
          = s\<lparr>nxt := nxt s + k, state := STATE_MARKER,
              index := (if k = 0 then prev s + 1 else dec_val (slice fmt (nxt s) (nxt s + k))),
              prev := (if k = 0 then prev s + 1 else dec_val (slice fmt (nxt s) (nxt s + k)))\<rparr>"
    if h: "state s = STATE_INDEX" "index s = - 1" "nxt s + k < length fmt"
      "\<forall>i<k. is_digit (fmt ! (nxt s + i))" "\<not> is_digit (fmt ! (nxt s + k))"
      "dec_val (slice fmt (nxt s) (nxt s + k)) < 2147483648"
      "- 1 \<le> prev s" "prev s < 2147483647"
  proof -
    let ?v = "dec_val (slice fmt (nxt s) (nxt s + k))"
    let ?t = "s\<lparr>nxt := nxt s + k, index := (if k = 0 then - 1 else ?v)\<rparr>"
    have k: "(format_step fw fmt args ^^ k) s = ?t"
      using h by (intro scan_digits) auto
    have nn: "0 \<le> ?v"
      by (rule dec_val_nonneg, rule set_slice_digits) (use h in auto)
    have p: "i32 (prev s + 1) = prev s + 1"
      using h by (intro i32_id) auto
    have "format_step fw fmt args ?t =
       ?t\<lparr>index := (if index ?t < 0 then i32 (prev ?t + 1) else index ?t),
          prev := (if index ?t < 0 then i32 (prev ?t + 1) else index ?t),
          state := STATE_MARKER\<rparr>"
      using h by (intro step_INDEX_other) simp_all
    also have "\<dots> = s\<lparr>nxt := nxt s + k, state := STATE_MARKER,
              index := (if k = 0 then prev s + 1 else ?v),
              prev := (if k = 0 then prev s + 1 else ?v)\<rparr>"
      using nn p by simp
    finally show ?thesis using k by simp
  qed
  have init: "prev (format_init out) = - 1"
    by (simp add: format_init_def)
  have opener: "state (format_step fw fmt args t) = STATE_INDEX
            \<and> index (format_step fw fmt args t) = - 1
            \<and> nxt (format_step fw fmt args t) = nxt t + 1"
    if "state t = STATE_OPENER" "fmt ! nxt t = CHR ''{''" "nxt t + 1 < length fmt"
       "fmt ! (nxt t + 1) \<noteq> CHR ''{''"
    using step_OPENER_open [OF that] by simp
  have ex: "format_buffer (replicate 16 (CHR 0x7F)) 16 ''{} {} {1} {} {1}''
        [ArgLongLong 0, ArgLongLong 1, ArgLongLong 2]
      = (9, ''0 1 1 2 1'' @ [CHR 0x00] @ replicate 6 (CHR 0x7F))"
    by code_simp
  show ?thesis
    using scan init step_prev_frame [of t fmt fw args] step_index_frame [of t fw fmt args]
      opener ex
    by blast
qed

text \<open>
  In the template \<^verbatim>\<open>{12} {}\<close> with the counter at 3: the first placeholder resolves to
  12 and sets the counter to 12; the second one, with no digits, resolves to 13.
\<close>

theorem auto_increment_index_witness:
  "(format_step (\<lambda>data (f::unit). (length data, f)) ''{12} {}'' [] ^^ 3)
      \<lparr>state = STATE_INDEX, nxt = 1, start = 0, formatStart = None, prev = 3, index = - 1,
       outp = Output_buffer [] 0\<rparr>
     = \<lparr>state = STATE_MARKER, nxt = 3, start = 0, formatStart = None, prev = 12, index = 12,
        outp = Output_buffer [] 0\<rparr>
   \<and> (format_step (\<lambda>data (f::unit). (length data, f)) ''{12} {}'' [] ^^ 1)
      \<lparr>state = STATE_INDEX, nxt = 6, start = 5, formatStart = None, prev = 12, index = - 1,
       outp = Output_buffer [] 0\<rparr>
     = \<lparr>state = STATE_MARKER, nxt = 6, start = 5, formatStart = None, prev = 13, index = 13,
        outp = Output_buffer [] 0\<rparr>"
proof -
  let ?fw = "\<lambda>data (f::unit). (length data, f)"
  let ?fmt = "''{12} {}''"
  let ?s1 = "\<lparr>state = STATE_INDEX, nxt = 1, start = 0, formatStart = None, prev = 3,
              index = - 1, outp = Output_buffer [] 0 :: unit Output\<rparr>"
  let ?s2 = "\<lparr>state = STATE_INDEX, nxt = 6, start = 5, formatStart = None, prev = 12,
              index = - 1, outp = Output_buffer [] 0 :: unit Output\<rparr>"
  have h1: "state ?s1 = STATE_INDEX \<and> index ?s1 = - 1 \<and> nxt ?s1 + 2 < length ?fmt
      \<and> (\<forall>i<2. is_digit (?fmt ! (nxt ?s1 + i))) \<and> \<not> is_digit (?fmt ! (nxt ?s1 + 2))
      \<and> dec_val (slice ?fmt (nxt ?s1) (nxt ?s1 + 2)) < 2147483648
      \<and> - 1 \<le> prev ?s1 \<and> prev ?s1 < 2147483647"
    by (simp add: is_digit_def less_Suc_eq numeral_2_eq_2 dec_val_def slice_def digit_val_def)
  have h2: "state ?s2 = STATE_INDEX \<and> index ?s2 = - 1 \<and> nxt ?s2 + 0 < length ?fmt
      \<and> (\<forall>i<0. is_digit (?fmt ! (nxt ?s2 + i))) \<and> \<not> is_digit (?fmt ! (nxt ?s2 + 0))
      \<and> dec_val (slice ?fmt (nxt ?s2) (nxt ?s2 + 0)) < 2147483648
      \<and> - 1 \<le> prev ?s2 \<and> prev ?s2 < 2147483647"
    by (simp add: is_digit_def dec_val_def slice_def digit_val_def)
  have c1: "(format_step ?fw ?fmt [] ^^ (2 + 1)) ?s1
          = ?s1\<lparr>nxt := nxt ?s1 + 2, state := STATE_MARKER,
              index := (if (2::nat) = 0 then prev ?s1 + 1
                        else dec_val (slice ?fmt (nxt ?s1) (nxt ?s1 + 2))),
              prev := (if (2::nat) = 0 then prev ?s1 + 1
                       else dec_val (slice ?fmt (nxt ?s1) (nxt ?s1 + 2)))\<rparr>"
    using auto_increment_index [of ?s1 2 ?fmt ?fw "[]"] h1 by blast
  have c2: "(format_step ?fw ?fmt [] ^^ (0 + 1)) ?s2
          = ?s2\<lparr>nxt := nxt ?s2 + 0, state := STATE_MARKER,
              index := (if (0::nat) = 0 then prev ?s2 + 1
                        else dec_val (slice ?fmt (nxt ?s2) (nxt ?s2 + 0))),
              prev := (if (0::nat) = 0 then prev ?s2 + 1
                       else dec_val (slice ?fmt (nxt ?s2) (nxt ?s2 + 0)))\<rparr>"
    using auto_increment_index [of ?s2 0 ?fmt ?fw "[]"] h2 by blast
  show ?thesis
    using c1 c2 by (simp add: dec_val_def slice_def digit_val_def)
qed

section \<open>Placeholders whose dispatch fails\<close>

lemma reached_0: "reached fw fmt args out 0 = format_init out"
  by (simp add: reached_def)

lemma reached_Suc:
  "reached fw fmt args out (Suc n) = format_step fw fmt args (reached fw fmt args out n)"
  by (simp add: reached_def)

lemma reached_add:
  "reached fw fmt args out (n + j) = (format_step fw fmt args ^^ j) (reached fw fmt args out n)"
  by (simp add: reached_def funpow_add add.commute)

lemma placeholder_open_init: "placeholder_open fmt (format_init out)"
  by (simp add: placeholder_open_def format_init_def)

lemma placeholder_open_step:
  assumes "placeholder_open fmt s" "nxt s < length fmt"
  shows "placeholder_open fmt (format_step fw fmt args s)"
proof (cases "state s")
  case STATE_OPENER
  with assms show ?thesis by (auto simp: placeholder_open_def format_step_def Let_def)
next
  case STATE_INDEX
  with assms show ?thesis by (auto simp: placeholder_open_def format_step_def Let_def)
next
  case STATE_MARKER
  with assms show ?thesis by (auto simp: placeholder_open_def format_step_def Let_def)
next
  case STATE_FLAGS
  with assms show ?thesis by (auto simp: placeholder_open_def format_step_def Let_def)
next
  case STATE_CLOSER
  with assms show ?thesis
    by (auto simp: placeholder_open_def format_step_def Let_def split_beta)
qed

lemma placeholder_open_reached:
  "\<forall>j<n. nxt (reached fw fmt args out j) < length fmt
     \<Longrightarrow> placeholder_open fmt (reached fw fmt args out n)"
proof (induction n)
  case 0
  then show ?case by (simp add: reached_0 placeholder_open_init)
next
  case (Suc n)
  then show ?case by (simp add: reached_Suc placeholder_open_step)
qed

lemma next_brace_bounds: "p \<le> length fmt \<Longrightarrow> p \<le> next_brace fmt p \<and> next_brace fmt p \<le> length fmt"
proof -
  assume "p \<le> length fmt"
  have "length (takeWhile (\<lambda>c. \<not> is_brace c) (drop p fmt)) \<le> length (drop p fmt)"
    by (rule length_takeWhile_le)
  then show ?thesis using \<open>p \<le> length fmt\<close> by (simp add: next_brace_def)
qed

lemma next_brace_before:
  assumes "p \<le> i" "i < next_brace fmt p"
  shows "\<not> is_brace (fmt ! i)"
proof -
  let ?xs = "drop p fmt"
  have l: "i - p < length (takeWhile (\<lambda>c. \<not> is_brace c) ?xs)"
    using assms by (simp add: next_brace_def)
  then have "takeWhile (\<lambda>c. \<not> is_brace c) ?xs ! (i - p) = ?xs ! (i - p)"
    by (rule takeWhile_nth)
  moreover have "\<not> is_brace (takeWhile (\<lambda>c. \<not> is_brace c) ?xs ! (i - p))"
    using l nth_mem set_takeWhileD by fastforce
  moreover have "i - p < length ?xs"
    using l length_takeWhile_le [of "\<lambda>c. \<not> is_brace c" ?xs] by linarith
  ultimately show ?thesis using assms by simp
qed

lemma next_brace_at:
  assumes "next_brace fmt p < length fmt"
  shows "is_brace (fmt ! next_brace fmt p)"
proof -
  let ?xs = "drop p fmt"
  let ?k = "length (takeWhile (\<lambda>c. \<not> is_brace c) ?xs)"
  have "?k < length ?xs" using assms by (simp add: next_brace_def)
  then have "\<not> (\<lambda>c. \<not> is_brace c) (?xs ! ?k)"
    by (rule nth_length_takeWhile)
  moreover have "?xs ! ?k = fmt ! (p + ?k)"
    using \<open>?k < length ?xs\<close> by simp
  ultimately show ?thesis by (simp add: next_brace_def)
qed

lemma step_OPENER_plain:
  assumes "state s = STATE_OPENER" "\<not> is_brace (fmt ! nxt s)"
  shows "format_step fw fmt args s = s\<lparr>nxt := nxt s + 1\<rparr>"
  using assms by (simp add: format_step_def Let_def is_brace_def)

lemma skip_literal:
  assumes "state s = STATE_OPENER" "\<And>i. i < j \<Longrightarrow> \<not> is_brace (fmt ! (nxt s + i))"
  shows "(format_step fw fmt args ^^ j) s = s\<lparr>nxt := nxt s + j\<rparr>"
  using assms
proof (induction j)
  case 0
  then show ?case by simp
next
  case (Suc j)
  have "(format_step fw fmt args ^^ j) s = s\<lparr>nxt := nxt s + j\<rparr>"
    using Suc.prems by (intro Suc.IH) auto
  moreover have "format_step fw fmt args (s\<lparr>nxt := nxt s + j\<rparr>)
      = (s\<lparr>nxt := nxt s + j\<rparr>)\<lparr>nxt := nxt (s\<lparr>nxt := nxt s + j\<rparr>) + 1\<rparr>"
    using Suc.prems by (intro step_OPENER_plain) simp_all
  ultimately show ?case by simp
qed

lemma step_OPENER_brace:
  assumes "state s = STATE_OPENER" "is_brace (fmt ! nxt s)"
  shows "outp (format_step fw fmt args s)
     = Output_write fw (slice fmt (start s) (if fmt ! nxt s = CHR ''}'' then nxt s + 1 else nxt s))
         (outp s)"
  using assms by (auto simp: format_step_def Let_def is_brace_def)

lemma step_CLOSER_fail:
  assumes "state s = STATE_CLOSER" "fmt ! nxt s = CHR ''}''"
    "\<not> fst (format_index fw (outp s)
        (case formatStart s of Some fs \<Rightarrow> slice fmt fs (nxt s) | None \<Rightarrow> []) (index s) args)"
  shows "format_step fw fmt args s = s\<lparr>nxt := nxt s + 1, state := STATE_OPENER\<rparr>"
  using assms format_index_fail [OF assms(3)]
  by (simp add: format_step_def Let_def split_beta)

lemma slice_append:
  "a \<le> b \<Longrightarrow> b \<le> e \<Longrightarrow> slice fmt a e = slice fmt a b @ slice fmt b e"
proof -
  assume "a \<le> b" "b \<le> e"
  then have "e - a = (b - a) + (e - b)" by simp
  then have "take (e - a) (drop a fmt) = take (b - a) (drop a fmt) @ take (e - b) (drop (b - a) (drop a fmt))"
    by (simp add: take_add)
  then show ?thesis using \<open>a \<le> b\<close> by (simp add: slice_def)
qed


lemma run_reached:
  "\<forall>j<n. nxt (reached fw fmt args out j) < length fmt
     \<Longrightarrow> run fw fmt args (format_init out) = run fw fmt args (reached fw fmt args out n)"
proof (induction n)
  case 0
  then show ?case by (simp add: reached_0)
next
  case (Suc n)
  have "run fw fmt args (format_init out) = run fw fmt args (reached fw fmt args out n)"
    using Suc.prems by (intro Suc.IH) simp
  also have "\<dots> = run fw fmt args (format_step fw fmt args (reached fw fmt args out n))"
    using Suc.prems by (subst run.simps) simp
  finally show ?case by (simp add: reached_Suc)
qed

lemma step_OPENER_trailing:
  assumes "state t = STATE_OPENER" "fmt ! nxt t = CHR ''{''" "\<not> nxt t + 1 < length fmt"
  shows "format_step fw fmt args t
     = t\<lparr>nxt := nxt t + 1, outp := Output_write fw (slice fmt (start t) (nxt t)) (outp t)\<rparr>"
  using assms by (simp add: format_step_def Let_def)

lemma step_OPENER_start:
  assumes "state t = STATE_OPENER" "is_brace (fmt ! nxt t)"
    "fmt ! nxt t = CHR ''}'' \<or> nxt t + 1 < length fmt"
  shows "(if fmt ! nxt t = CHR ''}'' then nxt t + 1 else nxt t) \<le> start (format_step fw fmt args t)"
  using assms by (auto simp: format_step_def Let_def is_brace_def)

text \<open>
  For every template, argument list and output. Let \<open>s\<close> be the loop's variables after
  \<open>n\<close> iterations, in \<^verbatim>\<open>STATE_CLOSER\<close> at a \<^verbatim>\<open>}\<close>, and let the index be outside the argument
  list, or the argument have no renderer, or the spec not parse. Then
  \<^item> the placeholder is the template's text from \<open>start s\<close>, a \<^verbatim>\<open>{\<close>, to \<open>nxt s\<close>, the \<^verbatim>\<open>}\<close>;
  \<^item> the dispatch \<open>format_index\<close> fails;
  \<^item> the failing iteration and the ones that scan the literal text after the
    placeholder, up to the next brace at \<open>q\<close>, change only \<open>nxt\<close> and the state, which is
    \<^verbatim>\<open>STATE_OPENER\<close>: the output, and with it \<open>result\<close>, is as before the dispatch (nothing
    of the placeholder is rendered, and the length is not set to -1), and \<open>start\<close>
    still points at the placeholder;
  \<^item> when a brace follows, the iteration at it writes the placeholder's text,
    unchanged, followed by the literal text after it, up to \<open>e\<close>; unless that brace is
    a \<^verbatim>\<open>{\<close> that ends the template, \<open>start\<close> then moves to \<open>e\<close> or beyond, so that no later
    write repeats the text;
  \<^item> when no brace follows, the flush that ends \<open>format\<close> writes the placeholder's
    text and the literal text after it, and the call's output is the output at the
    dispatch followed by them;
  \<^item> when the brace is a \<^verbatim>\<open>{\<close> that ends the template, \<open>start\<close> stays at the placeholder,
    and the flush that ends \<open>format\<close> writes the placeholder's text, the literal text
    and the \<^verbatim>\<open>{\<close> after the iteration at the \<^verbatim>\<open>{\<close> has written the first two: the call's
    output holds the placeholder's text twice.
\<close>

lemma failed_dispatch_pending:
  fixes fw :: "'f fwrite" and fmt :: string and args :: "Arg list" and out :: "'f Output"
    and n :: nat
  assumes s_def: "s = reached fw fmt args out n"
    and spec_def: "spec = (case formatStart s of Some fs \<Rightarrow> slice fmt fs (nxt s) | None \<Rightarrow> [])"
    and q_def: "q = next_brace fmt (nxt s + 1)"
    and e_def: "e = (if q < length fmt \<and> fmt ! q = CHR ''}'' then q + 1 else q)"
    and iter: "\<forall>j<n. nxt (reached fw fmt args out j) < length fmt"
    and closer: "state s = STATE_CLOSER" "nxt s < length fmt" "fmt ! nxt s = CHR ''}''"
    and cause: "index s < 0 \<or> int (length args) \<le> index s \<or> args ! nat (index s) = ArgDummy
        \<or> \<not> fst (parse_format spec)"
  shows "start s < nxt s \<and> fmt ! start s = CHR ''{''
    \<and> \<not> fst (format_index fw (outp s) spec (index s) args)
    \<and> (\<forall>j. 1 \<le> j \<and> j \<le> q - nxt s \<longrightarrow>
          reached fw fmt args out (n + j) = s\<lparr>nxt := nxt s + j, state := STATE_OPENER\<rparr>)
    \<and> nxt s < q \<and> q \<le> length fmt \<and> nxt s < e \<and> e \<le> length fmt
    \<and> (q < length fmt \<longrightarrow>
          outp (reached fw fmt args out (n + (q - nxt s) + 1))
            = Output_write fw (slice fmt (start s) (nxt s + 1) @ slice fmt (nxt s + 1) e) (outp s))
    \<and> (q < length fmt \<and> (fmt ! q = CHR ''}'' \<or> q + 1 < length fmt) \<longrightarrow>
          e \<le> start (reached fw fmt args out (n + (q - nxt s) + 1)))
    \<and> (q = length fmt \<longrightarrow>
          snd (format fw out fmt args)
            = Output_write fw (slice fmt (start s) (nxt s + 1) @ slice fmt (nxt s + 1) e) (outp s))
    \<and> (q + 1 = length fmt \<and> fmt ! q = CHR ''{'' \<longrightarrow>
          snd (format fw out fmt args)
            = Output_write fw
                (slice fmt (start s) (nxt s + 1) @ slice fmt (nxt s + 1) e @ ''{'')
                (Output_write fw
                   (slice fmt (start s) (nxt s + 1) @ slice fmt (nxt s + 1) e) (outp s)))"
proof -
  let ?d = "q - nxt s"
  have po: "placeholder_open fmt s"
    unfolding s_def using iter by (rule placeholder_open_reached)
  then have st: "start s < nxt s" "fmt ! start s = CHR ''{''"
    using closer(1) by (simp_all add: placeholder_open_def)
  have fail: "\<not> fst (format_index fw (outp s) spec (index s) args)"
    using cause by (auto simp: format_index_ok)
  have s1: "format_step fw fmt args s = s\<lparr>nxt := nxt s + 1, state := STATE_OPENER\<rparr>"
    using closer fail unfolding spec_def by (intro step_CLOSER_fail) auto
  have qb: "nxt s + 1 \<le> q" "q \<le> length fmt"
    using next_brace_bounds [of "nxt s + 1" fmt] closer(2) unfolding q_def by simp_all
  have plain: "\<not> is_brace (fmt ! i)" if "nxt s + 1 \<le> i" "i < q" for i
    using that unfolding q_def by (rule next_brace_before)
  have eb: "nxt s < e" "e \<le> length fmt" "q \<le> e"
    using qb unfolding e_def by auto
  have walk: "reached fw fmt args out (n + j) = s\<lparr>nxt := nxt s + j, state := STATE_OPENER\<rparr>"
    if j: "1 \<le> j" "j \<le> ?d" for j
  proof -
    obtain i where i: "j = Suc i" using j(1) by (cases j) auto
    let ?s1 = "s\<lparr>nxt := nxt s + 1, state := STATE_OPENER\<rparr>"
    have "reached fw fmt args out (n + j) = (format_step fw fmt args ^^ i) (format_step fw fmt args s)"
      unfolding reached_add s_def [symmetric] i by (simp add: funpow_swap1)
    also have "\<dots> = (format_step fw fmt args ^^ i) ?s1"
      using s1 by simp
    also have "\<dots> = ?s1\<lparr>nxt := nxt ?s1 + i\<rparr>"
    proof (rule skip_literal)
      show "state ?s1 = STATE_OPENER" by simp
      fix k assume "k < i"
      then have "nxt s + 1 \<le> nxt s + 1 + k" "nxt s + 1 + k < q"
        using j(2) i by auto
      then have "\<not> is_brace (fmt ! (nxt s + 1 + k))" by (rule plain)
      then show "\<not> is_brace (fmt ! (nxt ?s1 + k))" by simp
    qed
    also have "\<dots> = s\<lparr>nxt := nxt s + j, state := STATE_OPENER\<rparr>"
      using i by simp
    finally show ?thesis .
  qed
  have last: "reached fw fmt args out (n + ?d) = s\<lparr>nxt := q, state := STATE_OPENER\<rparr>"
    using walk [of ?d] qb by simp
  have chunk: "slice fmt (start s) e = slice fmt (start s) (nxt s + 1) @ slice fmt (nxt s + 1) e"
    using st(1) eb by (intro slice_append) auto
  have inloop: "outp (reached fw fmt args out (n + ?d + 1))
            = Output_write fw (slice fmt (start s) (nxt s + 1) @ slice fmt (nxt s + 1) e) (outp s)"
    if lt: "q < length fmt"
  proof -
    let ?t = "s\<lparr>nxt := q, state := STATE_OPENER\<rparr>"
    have b: "is_brace (fmt ! nxt ?t)"
      using next_brace_at [of fmt "nxt s + 1"] lt unfolding q_def by simp
    have "reached fw fmt args out (n + ?d + 1) = format_step fw fmt args ?t"
      using last by (simp add: reached_Suc)
    moreover have "outp (format_step fw fmt args ?t)
        = Output_write fw
            (slice fmt (start ?t) (if fmt ! nxt ?t = CHR ''}'' then nxt ?t + 1 else nxt ?t))
            (outp ?t)"
      using b by (intro step_OPENER_brace) simp_all
    moreover have "(if fmt ! nxt ?t = CHR ''}'' then nxt ?t + 1 else nxt ?t) = e"
      using lt unfolding e_def by simp
    ultimately show ?thesis using chunk by simp
  qed
  have bound: "nxt (reached fw fmt args out j) < length fmt" if "j < n + ?d" for j
  proof (cases "j < n")
    case True
    then show ?thesis using iter by simp
  next
    case False
    show ?thesis
    proof (cases "j = n")
      case True
      then show ?thesis using closer(2) by (simp add: s_def)
    next
      case neq: False
      let ?i = "j - n"
      have i: "1 \<le> ?i" "?i \<le> ?d" "j = n + ?i" "?i < ?d"
        using False neq that by auto
      have "reached fw fmt args out (n + ?i) = s\<lparr>nxt := nxt s + ?i, state := STATE_OPENER\<rparr>"
        using i(1,2) by (rule walk)
      then have "nxt (reached fw fmt args out j) = nxt s + ?i"
        using i(3) by simp
      then show ?thesis using i(4) qb by linarith
    qed
  qed
  have flush: "snd (format fw out fmt args)
            = Output_write fw (slice fmt (start s) (nxt s + 1) @ slice fmt (nxt s + 1) e) (outp s)"
    if eq: "q = length fmt"
  proof -
    let ?t = "s\<lparr>nxt := q, state := STATE_OPENER\<rparr>"
    have "\<forall>j<n + ?d. nxt (reached fw fmt args out j) < length fmt"
      using bound by simp
    then have "run fw fmt args (format_init out)
        = run fw fmt args (reached fw fmt args out (n + ?d))"
      by (intro run_reached) simp
    also have "\<dots> = run fw fmt args ?t" using last by simp
    also have "\<dots> = ?t" using eq by (subst run.simps) simp
    finally have r: "run fw fmt args (format_init out) = ?t" .
    have "e = length fmt" using eq unfolding e_def by simp
    then show ?thesis
      using r st(1) closer(2) chunk by (simp add: format_def Let_def)
  qed
  have moved: "e \<le> start (reached fw fmt args out (n + ?d + 1))"
    if lt: "q < length fmt" and ok: "fmt ! q = CHR ''}'' \<or> q + 1 < length fmt"
  proof -
    let ?t = "s\<lparr>nxt := q, state := STATE_OPENER\<rparr>"
    have b: "is_brace (fmt ! nxt ?t)"
      using next_brace_at [of fmt "nxt s + 1"] lt unfolding q_def by simp
    have "reached fw fmt args out (n + ?d + 1) = format_step fw fmt args ?t"
      using last by (simp add: reached_Suc)
    moreover have "(if fmt ! nxt ?t = CHR ''}'' then nxt ?t + 1 else nxt ?t)
        \<le> start (format_step fw fmt args ?t)"
      using b ok by (intro step_OPENER_start) simp_all
    moreover have "(if fmt ! nxt ?t = CHR ''}'' then nxt ?t + 1 else nxt ?t) = e"
      using lt unfolding e_def by simp
    ultimately show ?thesis by simp
  qed
  have twice: "snd (format fw out fmt args)
            = Output_write fw
                (slice fmt (start s) (nxt s + 1) @ slice fmt (nxt s + 1) e @ ''{'')
                (Output_write fw
                   (slice fmt (start s) (nxt s + 1) @ slice fmt (nxt s + 1) e) (outp s))"
    if eq: "q + 1 = length fmt" and br: "fmt ! q = CHR ''{''"
  proof -
    let ?t = "s\<lparr>nxt := q, state := STATE_OPENER\<rparr>"
    let ?w = "Output_write fw (slice fmt (start s) q) (outp s)"
    let ?u = "?t\<lparr>nxt := q + 1, outp := ?w\<rparr>"
    have eq': "e = q" using eq br unfolding e_def by simp
    have step: "format_step fw fmt args ?t = ?u"
      using step_OPENER_trailing [of ?t fmt fw args] eq br by simp
    have "nxt (reached fw fmt args out j) < length fmt" if "j < Suc (n + ?d)" for j
    proof (cases "j = n + ?d")
      case True
      then show ?thesis using last eq by simp
    next
      case False
      then show ?thesis using that bound by simp
    qed
    then have "\<forall>j<Suc (n + ?d). nxt (reached fw fmt args out j) < length fmt"
      by simp
    then have "run fw fmt args (format_init out)
        = run fw fmt args (reached fw fmt args out (Suc (n + ?d)))"
      by (rule run_reached)
    also have "\<dots> = run fw fmt args ?u" using last step by (simp add: reached_Suc)
    also have "\<dots> = ?u" using eq by (subst run.simps) simp
    finally have r: "run fw fmt args (format_init out) = ?u" .
    have "q < length fmt" using eq by simp
    then have "fmt ! q # drop (Suc q) fmt = drop q fmt"
      by (rule Cons_nth_drop_Suc)
    moreover have "drop (Suc q) fmt = []" using eq by simp
    ultimately have "drop q fmt = [fmt ! q]" by metis
    then have one: "slice fmt q (q + 1) = ''{''"
      using br by (simp add: slice_def)
    have "slice fmt (start s) (length fmt) = slice fmt (start s) q @ slice fmt q (q + 1)"
      unfolding eq [symmetric] using st(1) qb by (intro slice_append) auto
    then have all: "slice fmt (start s) (length fmt)
        = slice fmt (start s) (nxt s + 1) @ slice fmt (nxt s + 1) e @ ''{''"
      using chunk one unfolding eq' by simp
    have "snd (format fw out fmt args) = Output_write fw (slice fmt (start s) (length fmt)) ?w"
      using r st(1) closer(2) by (simp add: format_def Let_def)
    then show ?thesis using all chunk unfolding eq' by simp
  qed
  show ?thesis
    using st fail walk qb eb inloop moved flush twice by auto
qed

text \<open>
  The index 9 with a single argument, into an eight-character buffer. In \<^verbatim>\<open>{9} x\<close> the
  final flush writes \<^verbatim>\<open>{9} x\<close> (after the empty write that \<^verbatim>\<open>STATE_OPENER\<close> made at the
  \<^verbatim>\<open>{\<close>); in \<^verbatim>\<open>{9}-{}\<close> the iteration at the second \<^verbatim>\<open>{\<close> writes \<^verbatim>\<open>{9}-\<close> and moves \<open>start\<close>
  to that \<^verbatim>\<open>{\<close>; in \<^verbatim>\<open>{9}{\<close> the iteration at the second \<^verbatim>\<open>{\<close> writes \<^verbatim>\<open>{9}\<close>, the flush
  writes \<^verbatim>\<open>{9}{\<close>, and the buffer holds \<^verbatim>\<open>{9}{9}{\<close>.
\<close>

lemma failed_dispatch_pending_example:
  "snd (format (\<lambda>data (f::unit). (length data, f)) (Output_buffer (replicate 8 (CHR 0x7F)) 8)
          ''{9} x'' [ArgLongLong 1])
     = Output_write (\<lambda>data (f::unit). (length data, f)) (''{9}'' @ '' x'')
         (Output_write (\<lambda>data (f::unit). (length data, f)) []
            (Output_buffer (replicate 8 (CHR 0x7F)) 8))
   \<and> mem (snd (format (\<lambda>data (f::unit). (length data, f))
                 (Output_buffer (replicate 8 (CHR 0x7F)) 8) ''{9} x'' [ArgLongLong 1]))
     = ''{9} x'' @ [CHR 0x00, CHR 0x7F, CHR 0x7F]
   \<and> outp (reached (\<lambda>data (f::unit). (length data, f)) ''{9}-{}'' [ArgLongLong 1]
          (Output_buffer (replicate 8 (CHR 0x7F)) 8) 7)
     = Output_write (\<lambda>data (f::unit). (length data, f)) (''{9}'' @ ''-'')
         (Output_write (\<lambda>data (f::unit). (length data, f)) []
            (Output_buffer (replicate 8 (CHR 0x7F)) 8))
   \<and> 4 \<le> start (reached (\<lambda>data (f::unit). (length data, f)) ''{9}-{}'' [ArgLongLong 1]
          (Output_buffer (replicate 8 (CHR 0x7F)) 8) 7)
   \<and> snd (format (\<lambda>data (f::unit). (length data, f)) (Output_buffer (replicate 8 (CHR 0x7F)) 8)
          ''{9}{'' [ArgLongLong 1])
     = Output_write (\<lambda>data (f::unit). (length data, f)) (''{9}'' @ [] @ ''{'')
         (Output_write (\<lambda>data (f::unit). (length data, f)) (''{9}'' @ [])
            (Output_write (\<lambda>data (f::unit). (length data, f)) []
               (Output_buffer (replicate 8 (CHR 0x7F)) 8)))
   \<and> mem (snd (format (\<lambda>data (f::unit). (length data, f))
                 (Output_buffer (replicate 8 (CHR 0x7F)) 8) ''{9}{'' [ArgLongLong 1]))
     = ''{9}{9}{'' @ [CHR 0x00]"
proof -
  let ?fw = "\<lambda>data (f::unit). (length data, f)"
  let ?out = "Output_buffer (replicate 8 (CHR 0x7F)) 8 :: unit Output"
  let ?args = "[ArgLongLong 1]"
  let ?A = "''{9} x''"
  let ?B = "''{9}-{}''"
  let ?C = "''{9}{''"
  let ?a = "reached ?fw ?A ?args ?out 4"
  let ?b = "reached ?fw ?B ?args ?out 4"
  let ?c = "reached ?fw ?C ?args ?out 4"
  have four: "j = 0 \<or> j = 1 \<or> j = 2 \<or> j = 3" if "j < 4" for j :: nat
    using that by linarith
  have a0: "nxt (reached ?fw ?A ?args ?out 0) = 0"
    by (simp add: reached_def eval_nat_numeral format_init_def format_step_def Let_def is_digit_def digit_val_def)
  have a1: "nxt (reached ?fw ?A ?args ?out 1) = 1"
    by (simp add: reached_def eval_nat_numeral format_init_def format_step_def Let_def is_digit_def digit_val_def)
  have a2: "nxt (reached ?fw ?A ?args ?out 2) = 2"
    by (simp add: reached_def eval_nat_numeral format_init_def format_step_def Let_def is_digit_def digit_val_def)
  have a3: "nxt (reached ?fw ?A ?args ?out 3) = 2"
    by (simp add: reached_def eval_nat_numeral format_init_def format_step_def Let_def is_digit_def digit_val_def)
  have a4s: "state ?a = STATE_CLOSER"
    by (simp add: reached_def eval_nat_numeral format_init_def format_step_def Let_def is_digit_def digit_val_def)
  have a4n: "nxt ?a = 2"
    by (simp add: reached_def eval_nat_numeral format_init_def format_step_def Let_def is_digit_def digit_val_def)
  have a4t: "start ?a = 0"
    by (simp add: reached_def eval_nat_numeral format_init_def format_step_def Let_def is_digit_def digit_val_def)
  have a4f: "formatStart ?a = None"
    by (simp add: reached_def eval_nat_numeral format_init_def format_step_def Let_def is_digit_def digit_val_def)
  have a4i: "index ?a = 9"
    by (simp add: reached_def eval_nat_numeral format_init_def format_step_def Let_def is_digit_def digit_val_def)
  note a4 = a4s a4n a4t a4f a4i
  have ia: "\<forall>j<4. nxt (reached ?fw ?A ?args ?out j) < length ?A"
  proof (intro allI impI)
    fix j :: nat assume "j < 4"
    then have "j = 0 \<or> j = 1 \<or> j = 2 \<or> j = 3" by (rule four)
    then show "nxt (reached ?fw ?A ?args ?out j) < length ?A"
      using a0 a1 a2 a3 by (elim disjE) simp_all
  qed
  have spa: "[] = (case formatStart ?a of Some fs \<Rightarrow> slice ?A fs (nxt ?a) | None \<Rightarrow> [])"
    by (simp add: a4)
  have fa: "index ?a < 0 \<or> int (length ?args) \<le> index ?a \<or> ?args ! nat (index ?a) = ArgDummy
      \<or> \<not> fst (parse_format [])"
    by (simp add: a4)
  have ca: "nxt ?a < length ?A" "?A ! nxt ?a = CHR ''}''"
    by (simp_all add: a4)
  have oa: "outp ?a = Output_write ?fw [] ?out"
    by (simp add: reached_def eval_nat_numeral format_init_def format_step_def Let_def
        is_digit_def digit_val_def slice_def)
  have b0: "nxt (reached ?fw ?B ?args ?out 0) = 0"
    by (simp add: reached_def eval_nat_numeral format_init_def format_step_def Let_def is_digit_def digit_val_def)
  have b1: "nxt (reached ?fw ?B ?args ?out 1) = 1"
    by (simp add: reached_def eval_nat_numeral format_init_def format_step_def Let_def is_digit_def digit_val_def)
  have b2: "nxt (reached ?fw ?B ?args ?out 2) = 2"
    by (simp add: reached_def eval_nat_numeral format_init_def format_step_def Let_def is_digit_def digit_val_def)
  have b3: "nxt (reached ?fw ?B ?args ?out 3) = 2"
    by (simp add: reached_def eval_nat_numeral format_init_def format_step_def Let_def is_digit_def digit_val_def)
  have b4s: "state ?b = STATE_CLOSER"
    by (simp add: reached_def eval_nat_numeral format_init_def format_step_def Let_def is_digit_def digit_val_def)
  have b4n: "nxt ?b = 2"
    by (simp add: reached_def eval_nat_numeral format_init_def format_step_def Let_def is_digit_def digit_val_def)
  have b4t: "start ?b = 0"
    by (simp add: reached_def eval_nat_numeral format_init_def format_step_def Let_def is_digit_def digit_val_def)
  have b4f: "formatStart ?b = None"
    by (simp add: reached_def eval_nat_numeral format_init_def format_step_def Let_def is_digit_def digit_val_def)
  have b4i: "index ?b = 9"
    by (simp add: reached_def eval_nat_numeral format_init_def format_step_def Let_def is_digit_def digit_val_def)
  note b4 = b4s b4n b4t b4f b4i
  have ib: "\<forall>j<4. nxt (reached ?fw ?B ?args ?out j) < length ?B"
  proof (intro allI impI)
    fix j :: nat assume "j < 4"
    then have "j = 0 \<or> j = 1 \<or> j = 2 \<or> j = 3" by (rule four)
    then show "nxt (reached ?fw ?B ?args ?out j) < length ?B"
      using b0 b1 b2 b3 by (elim disjE) simp_all
  qed
  have spb: "[] = (case formatStart ?b of Some fs \<Rightarrow> slice ?B fs (nxt ?b) | None \<Rightarrow> [])"
    by (simp add: b4)
  have fb: "index ?b < 0 \<or> int (length ?args) \<le> index ?b \<or> ?args ! nat (index ?b) = ArgDummy
      \<or> \<not> fst (parse_format [])"
    by (simp add: b4)
  have cb: "nxt ?b < length ?B" "?B ! nxt ?b = CHR ''}''"
    by (simp_all add: b4)
  have ob: "outp ?b = Output_write ?fw [] ?out"
    by (simp add: reached_def eval_nat_numeral format_init_def format_step_def Let_def
        is_digit_def digit_val_def slice_def)
  have c0: "nxt (reached ?fw ?C ?args ?out 0) = 0"
    by (simp add: reached_def eval_nat_numeral format_init_def format_step_def Let_def is_digit_def digit_val_def)
  have c1: "nxt (reached ?fw ?C ?args ?out 1) = 1"
    by (simp add: reached_def eval_nat_numeral format_init_def format_step_def Let_def is_digit_def digit_val_def)
  have c2: "nxt (reached ?fw ?C ?args ?out 2) = 2"
    by (simp add: reached_def eval_nat_numeral format_init_def format_step_def Let_def is_digit_def digit_val_def)
  have c3: "nxt (reached ?fw ?C ?args ?out 3) = 2"
    by (simp add: reached_def eval_nat_numeral format_init_def format_step_def Let_def is_digit_def digit_val_def)
  have c4s: "state ?c = STATE_CLOSER"
    by (simp add: reached_def eval_nat_numeral format_init_def format_step_def Let_def is_digit_def digit_val_def)
  have c4n: "nxt ?c = 2"
    by (simp add: reached_def eval_nat_numeral format_init_def format_step_def Let_def is_digit_def digit_val_def)
  have c4t: "start ?c = 0"
    by (simp add: reached_def eval_nat_numeral format_init_def format_step_def Let_def is_digit_def digit_val_def)
  have c4f: "formatStart ?c = None"
    by (simp add: reached_def eval_nat_numeral format_init_def format_step_def Let_def is_digit_def digit_val_def)
  have c4i: "index ?c = 9"
    by (simp add: reached_def eval_nat_numeral format_init_def format_step_def Let_def is_digit_def digit_val_def)
  note c4 = c4s c4n c4t c4f c4i
  have ic: "\<forall>j<4. nxt (reached ?fw ?C ?args ?out j) < length ?C"
  proof (intro allI impI)
    fix j :: nat assume "j < 4"
    then have "j = 0 \<or> j = 1 \<or> j = 2 \<or> j = 3" by (rule four)
    then show "nxt (reached ?fw ?C ?args ?out j) < length ?C"
      using c0 c1 c2 c3 by (elim disjE) simp_all
  qed
  have spc: "[] = (case formatStart ?c of Some fs \<Rightarrow> slice ?C fs (nxt ?c) | None \<Rightarrow> [])"
    by (simp add: c4)
  have fc: "index ?c < 0 \<or> int (length ?args) \<le> index ?c \<or> ?args ! nat (index ?c) = ArgDummy
      \<or> \<not> fst (parse_format [])"
    by (simp add: c4)
  have cc: "nxt ?c < length ?C" "?C ! nxt ?c = CHR ''}''"
    by (simp_all add: c4)
  have oc: "outp ?c = Output_write ?fw [] ?out"
    by (simp add: reached_def eval_nat_numeral format_init_def format_step_def Let_def
        is_digit_def digit_val_def slice_def)
  have qa0: "5 = next_brace ?A (2 + 1)" by code_simp
  have qa: "5 = next_brace ?A (nxt ?a + 1)" unfolding a4n by (rule qa0)
  have ea: "5 = (if 5 < length ?A \<and> ?A ! 5 = CHR ''}'' then 5 + 1 else (5::nat))" by simp
  note A = failed_dispatch_pending [OF refl spa qa ea ia a4(1) ca fa]
  have qb0: "4 = next_brace ?B (2 + 1)" by code_simp
  have qb: "4 = next_brace ?B (nxt ?b + 1)" unfolding b4n by (rule qb0)
  have eb: "4 = (if 4 < length ?B \<and> ?B ! 4 = CHR ''}'' then 4 + 1 else (4::nat))" by simp
  note B = failed_dispatch_pending [OF refl spb qb eb ib b4(1) cb fb]
  have qc0: "3 = next_brace ?C (2 + 1)" by code_simp
  have qc: "3 = next_brace ?C (nxt ?c + 1)" unfolding c4n by (rule qc0)
  have ec: "3 = (if 3 < length ?C \<and> ?C ! 3 = CHR ''}'' then 3 + 1 else (3::nat))" by simp
  note C = failed_dispatch_pending [OF refl spc qc ec ic c4(1) cc fc]
  have sa: "slice ?A (start ?a) (nxt ?a + 1) = ''{9}''" "slice ?A (nxt ?a + 1) 5 = '' x''"
    by (simp_all add: a4 slice_def)
  have sb: "slice ?B (start ?b) (nxt ?b + 1) = ''{9}''" "slice ?B (nxt ?b + 1) 4 = ''-''"
    by (simp_all add: b4 slice_def)
  have sc: "slice ?C (start ?c) (nxt ?c + 1) = ''{9}''" "slice ?C (nxt ?c + 1) 3 = []"
    by (simp_all add: c4 slice_def)
  have la: "5 = length ?A"
    by simp
  have "snd (format ?fw ?out ?A ?args)
      = Output_write ?fw (slice ?A (start ?a) (nxt ?a + 1) @ slice ?A (nxt ?a + 1) 5) (outp ?a)"
    using A la by blast
  then have ra: "snd (format ?fw ?out ?A ?args) = Output_write ?fw (''{9}'' @ '' x'') (outp ?a)"
    by (simp only: sa)
  have lb: "4 < length ?B" "?B ! 4 = CHR ''}'' \<or> 4 + 1 < length ?B"
    by simp_all
  have seven: "4 + (4 - nxt ?b) + 1 = 7"
    by (simp add: b4)
  have "outp (reached ?fw ?B ?args ?out (4 + (4 - nxt ?b) + 1))
      = Output_write ?fw (slice ?B (start ?b) (nxt ?b + 1) @ slice ?B (nxt ?b + 1) 4) (outp ?b)"
    using B lb(1) by blast
  then have rb: "outp (reached ?fw ?B ?args ?out 7)
      = Output_write ?fw (''{9}'' @ ''-'') (outp ?b)"
    unfolding seven by (simp only: sb)
  have "4 \<le> start (reached ?fw ?B ?args ?out (4 + (4 - nxt ?b) + 1))"
    using B lb by blast
  then have tb: "4 \<le> start (reached ?fw ?B ?args ?out 7)"
    unfolding seven .
  have lc: "3 + 1 = length ?C" "?C ! 3 = CHR ''{''"
    by simp_all
  have "snd (format ?fw ?out ?C ?args)
      = Output_write ?fw (slice ?C (start ?c) (nxt ?c + 1) @ slice ?C (nxt ?c + 1) 3 @ ''{'')
          (Output_write ?fw (slice ?C (start ?c) (nxt ?c + 1) @ slice ?C (nxt ?c + 1) 3)
             (outp ?c))"
    using C lc by blast
  then have rc: "snd (format ?fw ?out ?C ?args)
      = Output_write ?fw (''{9}'' @ [] @ ''{'') (Output_write ?fw (''{9}'' @ []) (outp ?c))"
    by (simp only: sc)
  have ma: "mem (Output_write ?fw (''{9}'' @ '' x'') (Output_write ?fw [] ?out))
      = ''{9} x'' @ [CHR 0x00, CHR 0x7F, CHR 0x7F]"
    by code_simp
  have mc: "mem (Output_write ?fw (''{9}'' @ [] @ ''{'')
               (Output_write ?fw (''{9}'' @ []) (Output_write ?fw [] ?out)))
      = ''{9}{9}{'' @ [CHR 0x00]"
    by code_simp
  show ?thesis
    using ra rb tb rc ma mc unfolding oa ob oc by simp
qed

text \<open>
  Claim C2 (the code departs from it). A placeholder whose dispatch fails is written
  twice when the next brace after it is a \<^verbatim>\<open>{\<close> that ends the template: \<^verbatim>\<open>STATE_OPENER\<close>
  writes the pending text at that \<^verbatim>\<open>{\<close> and, finding no character after it, leaves
  \<open>start\<close> at the placeholder, and the flush that ends \<open>format\<close> writes the text again.
  Into a 16-character buffer, for each of the three ways a dispatch fails:
  \<^item> \<^verbatim>\<open>format("{9}{", 1)\<close>, an index outside the arguments, is \<^verbatim>\<open>{9}{9}{\<close> (length 7), not
    \<^verbatim>\<open>{9}{\<close>;
  \<^item> \<^verbatim>\<open>format("{:!}{", 1)\<close>, a spec that does not parse, is \<^verbatim>\<open>{:!}{:!}{\<close> (length 9);
  \<^item> \<^verbatim>\<open>format("{}{", DummyArg())\<close>, an argument without renderer, is \<^verbatim>\<open>{}{}{\<close> (length 5).
\<close>

theorem failed_placeholder_written_twice:
  "format_buffer (replicate 16 (CHR 0x7F)) 16 ''{9}{'' [ArgLongLong 1]
     = (7, ''{9}{9}{'' @ [CHR 0x00] @ replicate 8 (CHR 0x7F))
   \<and> format_buffer (replicate 16 (CHR 0x7F)) 16 ''{:!}{'' [ArgLongLong 1]
     = (9, ''{:!}{:!}{'' @ [CHR 0x00] @ replicate 6 (CHR 0x7F))
   \<and> format_buffer (replicate 16 (CHR 0x7F)) 16 ''{}{'' [ArgDummy]
     = (5, ''{}{}{'' @ [CHR 0x00] @ replicate 10 (CHR 0x7F))"
  by code_simp

text \<open>
  The same placeholders come out once, and the rest of the template is formatted,
  when the template ends after them, when literal text or another placeholder
  follows, and when the \<^verbatim>\<open>{\<close> that follows is escaped.
\<close>

lemma failed_placeholder_once_elsewhere:
  "format_buffer (replicate 16 (CHR 0x7F)) 16 ''{9}'' [ArgLongLong 1]
     = (3, ''{9}'' @ [CHR 0x00] @ replicate 12 (CHR 0x7F))
   \<and> format_buffer (replicate 16 (CHR 0x7F)) 16 ''{9} x'' [ArgLongLong 1]
     = (5, ''{9} x'' @ [CHR 0x00] @ replicate 10 (CHR 0x7F))
   \<and> format_buffer (replicate 16 (CHR 0x7F)) 16 ''{:!}-{0}'' [ArgLongLong 1]
     = (6, ''{:!}-1'' @ [CHR 0x00] @ replicate 9 (CHR 0x7F))
   \<and> format_buffer (replicate 16 (CHR 0x7F)) 16 ''{}{{'' [ArgDummy]
     = (3, ''{}{'' @ [CHR 0x00] @ replicate 12 (CHR 0x7F))"
  by code_simp

text \<open>
  The repetition is that of \<^verbatim>\<open>STATE_OPENER\<close> at a final \<^verbatim>\<open>{\<close>, with or without a placeholder
  before it: \<^verbatim>\<open>format("ab{")\<close> is \<^verbatim>\<open>abab{\<close>.
\<close>

lemma trailing_brace_repeats_literal:
  "format_buffer (replicate 16 (CHR 0x7F)) 16 ''ab{'' []
     = (5, ''abab{'' @ [CHR 0x00] @ replicate 10 (CHR 0x7F))"
  by code_simp

end
